theory Spec2Isabelle
  imports Complex_Main "HOL-Library.Sublist"
begin

section \<open>The debounce buffer of src/server/debounce.py\<close>

text \<open>
  The module holds two classes. \<open>MessageBuffer\<close> is a dataclass with the fragments of
  one sender and a reference to the asyncio task that runs the sender's timer.
  \<open>DebounceManager\<close> owns a dictionary from phone numbers to buffers; its coroutine
  \<open>_timer_callback\<close> sleeps for the debounce period, joins and clears the fragments and
  awaits the callback.

  The coroutines run on one asyncio event loop, so the code between two \<open>await\<close>s is
  atomic. Each such piece is one function of the model, from the state before to the
  state after. The state holds the manager, the table of the tasks created by
  \<open>asyncio.create_task\<close> (a buffer refers to its task by the index in that table, as the
  Python object holds a reference), the loop's clock, and two traces that only record:
  the calls made to the callback and the records handed to the logger.
\<close>

subsection \<open>Data\<close>

text \<open>
  Times and durations are Python floats in the source; they are rationals here (no NaN, no
  infinity, no rounding). One clock stands for the loop's time and for
  \<open>datetime.utcnow()\<close>; the timestamps of a buffer are only reported, never compared.
\<close>

type_synonym seconds = rat
type_synonym task_id = nat

text \<open>
  What can be raised inside the \<open>try\<close> statement of \<open>_timer_callback\<close>, by the way the
  statement treats it: \<open>asyncio.CancelledError\<close> (first handler), an instance of
  \<open>Exception\<close> with its message (second handler), and an exception that is a
  \<open>BaseException\<close> but neither of the two, such as \<open>SystemExit\<close> or
  \<open>KeyboardInterrupt\<close>, with its name: no handler matches it.
\<close>

datatype py_exception = CancelledError | Exception string | Base_exception string

text \<open>The exceptions one of the two handlers catches.\<close>

definition handled :: "py_exception \<Rightarrow> bool" where
  "handled e = (case e of CancelledError \<Rightarrow> True | Exception m \<Rightarrow> True | Base_exception n \<Rightarrow> False)"

text \<open>How an awaited callback ends.\<close>

datatype callback_outcome = Returns | Raises py_exception

text \<open>
  The life of a timer task. \<open>Created\<close>: made by \<open>create_task\<close>, not yet run.
  \<open>Sleeping t\<close>: suspended in \<open>await asyncio.sleep\<close>, to be woken at loop time \<open>t\<close>.
  \<open>In_callback\<close>: suspended in \<open>await callback(...)\<close>. \<open>Done r\<close>: finished, which is
  what \<open>task.done()\<close> tests; \<open>r\<close> is \<open>None\<close> when the coroutine returned and the
  exception when one left it.
\<close>

datatype task_phase = Created | Sleeping seconds | In_callback | Done "py_exception option"

record timer =
  task_phone :: string
  phase :: task_phase
  must_cancel :: bool

record message_buffer =
  phone_number :: string
  messages :: "string list"
  timer_task :: "task_id option"
  created_at :: seconds
  last_updated :: seconds

text \<open>One constructor for each call of the logger, with the values it formats.\<close>

datatype log_record =
    Log_initialized seconds
  | Log_created_buffer string
  | Log_cancelled_existing string
  | Log_buffered string string
  | Log_buffer_count nat
  | Log_started_timer seconds string
  | Log_buffer_disappeared string
  | Log_timer_expired string nat string
  | Log_timer_cancelled string
  | Log_callback_error string string
  | Log_cleared_buffer string

record debounce_manager =
  debounce_seconds :: seconds
  buffers :: "string \<rightharpoonup> message_buffer"

record world = debounce_manager +
  tasks :: "timer list"
  clock :: seconds
  invocations :: "(string \<times> string) list"
  log :: "log_record list"

text \<open>The dictionary of \<open>get_buffer_status\<close>; \<open>timer_active\<close> is \<open>None\<close> for Python's
  \<open>None\<close>, which \<open>buffer.timer_task and ...\<close> yields when there is no task.\<close>

record buffer_status =
  status_phone_number :: string
  message_count :: nat
  status_messages :: "string list"
  status_created_at :: seconds
  status_last_updated :: seconds
  timer_active :: "bool option"

subsection \<open>MessageBuffer\<close>

text \<open>Python's \<open>sep.join(xs)\<close>.\<close>

fun str_join :: "string \<Rightarrow> string list \<Rightarrow> string" where
  "str_join sep [] = []"
| "str_join sep [x] = x"
| "str_join sep (x # y # ys) = x @ sep @ str_join sep (y # ys)"

text \<open>\<open>MessageBuffer(phone_number=...)\<close>: the defaults of the dataclass, the two
  timestamps read from the clock.\<close>

definition new_buffer :: "string \<Rightarrow> seconds \<Rightarrow> message_buffer" where
  "new_buffer phone now =
     \<lparr>phone_number = phone, messages = [], timer_task = None,
      created_at = now, last_updated = now\<rparr>"

definition buffer_add_message :: "message_buffer \<Rightarrow> string \<Rightarrow> seconds \<Rightarrow> message_buffer" where
  "buffer_add_message b text_in now =
     b\<lparr>messages := messages b @ [text_in], last_updated := now\<rparr>"

definition get_aggregated_text :: "message_buffer \<Rightarrow> string" where
  "get_aggregated_text b = str_join '' '' (messages b)"

definition buffer_clear :: "message_buffer \<Rightarrow> message_buffer" where
  "buffer_clear b = b\<lparr>messages := []\<rparr>"

subsection \<open>The asyncio tasks the manager uses\<close>

text \<open>\<open>asyncio.create_task(self._timer_callback(phone_number, callback))\<close>: a new task,
  not yet run; its id is its index.\<close>

definition create_task :: "world \<Rightarrow> string \<Rightarrow> task_id \<times> world" where
  "create_task w phone =
     (length (tasks w),
      w\<lparr>tasks := tasks w @ [\<lparr>task_phone = phone, phase = Created, must_cancel = False\<rparr>]\<rparr>)"

text \<open>\<open>task.done()\<close>.\<close>

definition task_done :: "world \<Rightarrow> task_id \<Rightarrow> bool" where
  "task_done w tid =
     (tid < length (tasks w) \<and> (case phase (tasks w ! tid) of Done r \<Rightarrow> True | _ \<Rightarrow> False))"

text \<open>\<open>task.cancel()\<close>: nothing on a finished task; otherwise the request is noted and
  \<open>CancelledError\<close> is raised in the coroutine when it next runs.\<close>

definition task_cancel :: "world \<Rightarrow> task_id \<Rightarrow> world" where
  "task_cancel w tid =
     (if tid < length (tasks w) \<and> \<not> task_done w tid
      then w\<lparr>tasks := (tasks w)[tid := (tasks w ! tid)\<lparr>must_cancel := True\<rparr>]\<rparr>
      else w)"

definition set_phase :: "world \<Rightarrow> task_id \<Rightarrow> task_phase \<Rightarrow> world" where
  "set_phase w tid p = w\<lparr>tasks := (tasks w)[tid := (tasks w ! tid)\<lparr>phase := p\<rparr>]\<rparr>"

definition log_append :: "world \<Rightarrow> log_record list \<Rightarrow> world" where
  "log_append w rs = w\<lparr>log := log w @ rs\<rparr>"

text \<open>\<open>asyncio.sleep(delay)\<close> yields once when \<open>delay <= 0\<close> and otherwise waits for
  \<open>delay\<close>.\<close>

definition sleep_delay :: "seconds \<Rightarrow> seconds" where
  "sleep_delay d = (if d \<le> 0 then 0 else d)"

subsection \<open>DebounceManager\<close>

text \<open>\<open>__init__\<close> stores its argument and an empty dictionary and logs. No statement in
  it raises, so the result is always \<open>Inr\<close>. The loop state beside the manager starts
  empty, at the loop time \<open>now\<close>.\<close>

definition init :: "seconds \<Rightarrow> seconds \<Rightarrow> py_exception + world" where
  "init debounce now =
     Inr \<lparr>debounce_seconds = debounce, buffers = Map.empty,
          tasks = [], clock = now, invocations = [],
          log = [Log_initialized debounce]\<rparr>"

text \<open>\<open>add_message\<close> has no \<open>await\<close>: it runs in one piece. The callback argument is
  the one the webhook passes at every call; the calls made to it are recorded in
  \<open>invocations\<close>.\<close>

definition add_message :: "world \<Rightarrow> string \<Rightarrow> string \<Rightarrow> world" where
  "add_message w phone message_text =
     (let w1 = (case buffers w phone of
                  None \<Rightarrow> log_append (w\<lparr>buffers := (buffers w)(phone \<mapsto> new_buffer phone (clock w))\<rparr>)
                            [Log_created_buffer phone]
                | Some b \<Rightarrow> w);
          buffer = (case buffers w phone of
                      None \<Rightarrow> new_buffer phone (clock w)
                    | Some b \<Rightarrow> b);
          w2 = (case timer_task buffer of
                  None \<Rightarrow> w1
                | Some old \<Rightarrow>
                    if \<not> task_done w1 old
                    then log_append (task_cancel w1 old) [Log_cancelled_existing phone]
                    else w1);
          buffer2 = buffer_add_message buffer message_text (clock w);
          w3 = log_append (w2\<lparr>buffers := (buffers w2)(phone \<mapsto> buffer2)\<rparr>)
                 [Log_buffered phone message_text, Log_buffer_count (length (messages buffer2))];
          (tid, w4) = create_task w3 phone
      in log_append (w4\<lparr>buffers := (buffers w4)(phone \<mapsto> buffer2\<lparr>timer_task := Some tid\<rparr>)\<rparr>)
           [Log_started_timer (debounce_seconds w) phone])"

text \<open>\<open>_timer_callback\<close>, first piece: the task runs for the first time. A task whose
  cancellation was requested before gets \<open>CancelledError\<close> before it enters the \<open>try\<close>,
  and ends with it. Otherwise it suspends in \<open>asyncio.sleep\<close>.\<close>

definition timer_callback_start :: "world \<Rightarrow> task_id \<Rightarrow> world" where
  "timer_callback_start w tid =
     (if tid < length (tasks w) \<and> phase (tasks w ! tid) = Created
      then if must_cancel (tasks w ! tid)
           then set_phase w tid (Done (Some CancelledError))
           else set_phase w tid (Sleeping (clock w + sleep_delay (debounce_seconds w)))
      else w)"

text \<open>Second piece: the task is resumed from the sleep. With a cancellation requested,
  \<open>CancelledError\<close> is raised at the \<open>await\<close> and the first handler logs it. Otherwise
  lines 116 to 131 run up to the \<open>await\<close> of the callback.\<close>

definition timer_callback_resume :: "world \<Rightarrow> task_id \<Rightarrow> world" where
  "timer_callback_resume w tid =
     (if tid < length (tasks w) \<and> (case phase (tasks w ! tid) of Sleeping t \<Rightarrow> True | _ \<Rightarrow> False)
      then let phone = task_phone (tasks w ! tid) in
        if must_cancel (tasks w ! tid)
        then log_append (set_phase w tid (Done None)) [Log_timer_cancelled phone]
        else (case buffers w phone of
                None \<Rightarrow> log_append (set_phase w tid (Done None)) [Log_buffer_disappeared phone]
              | Some buffer \<Rightarrow>
                  let aggregated_text = get_aggregated_text buffer;
                      w1 = log_append w
                             [Log_timer_expired phone (length (messages buffer)) aggregated_text];
                      w2 = w1\<lparr>buffers := (buffers w1)(phone \<mapsto> buffer_clear buffer)\<rparr>;
                      w3 = w2\<lparr>invocations := invocations w2 @ [(phone, aggregated_text)]\<rparr>
                  in set_phase w3 tid In_callback)
      else w)"

text \<open>Third piece: the awaited callback ends. A return ends the task; an exception is
  taken by the matching handler, which logs it, and the task ends without it; an
  exception that no handler matches leaves the coroutine, and the task ends with it,
  nothing logged.\<close>

definition timer_callback_finish :: "world \<Rightarrow> task_id \<Rightarrow> callback_outcome \<Rightarrow> world" where
  "timer_callback_finish w tid outcome =
     (if tid < length (tasks w) \<and> phase (tasks w ! tid) = In_callback
      then let phone = task_phone (tasks w ! tid) in
        (case outcome of
           Returns \<Rightarrow> set_phase w tid (Done None)
         | Raises CancelledError \<Rightarrow>
             log_append (set_phase w tid (Done None)) [Log_timer_cancelled phone]
         | Raises (Exception e) \<Rightarrow>
             log_append (set_phase w tid (Done None)) [Log_callback_error phone e]
         | Raises (Base_exception n) \<Rightarrow>
             set_phase w tid (Done (Some (Base_exception n))))
      else w)"

text \<open>\<open>get_buffer_status\<close> returns the dictionary or \<open>None\<close>; the state is returned
  beside it, as the method leaves it.\<close>

definition get_buffer_status :: "world \<Rightarrow> string \<Rightarrow> buffer_status option \<times> world" where
  "get_buffer_status w phone =
     (case buffers w phone of
        None \<Rightarrow> (None, w)
      | Some buffer \<Rightarrow>
          (Some \<lparr>status_phone_number = phone,
                 message_count = length (messages buffer),
                 status_messages = messages buffer,
                 status_created_at = created_at buffer,
                 status_last_updated = last_updated buffer,
                 timer_active = (case timer_task buffer of
                                   None \<Rightarrow> None
                                 | Some tid \<Rightarrow> Some (\<not> task_done w tid))\<rparr>,
           w))"

definition clear_buffer :: "world \<Rightarrow> string \<Rightarrow> world" where
  "clear_buffer w phone =
     (case buffers w phone of
        None \<Rightarrow> w
      | Some buffer \<Rightarrow>
          let w1 = (case timer_task buffer of
                      None \<Rightarrow> w
                    | Some tid \<Rightarrow> task_cancel w tid)
          in log_append (w1\<lparr>buffers := (buffers w1)(phone := None)\<rparr>) [Log_cleared_buffer phone])"

subsection \<open>Events and the loop\<close>

text \<open>
  What can happen to the manager, one atomic piece at a time: a call of one of its three
  methods, one of the three pieces of a timer task, or time passing. \<open>Start\<close>, \<open>Wake\<close>
  and \<open>Finish\<close> name the task the loop runs; \<open>Wake\<close> does not look at the clock, so a
  sequence of events covers every order in which the loop may run the tasks.
\<close>

datatype event =
    Add string string
  | Start task_id
  | Wake task_id
  | Finish task_id callback_outcome
  | Status string
  | Clear string
  | Tick seconds

fun step :: "world \<Rightarrow> event \<Rightarrow> world" where
  "step w (Add phone msg) = add_message w phone msg"
| "step w (Start tid) = timer_callback_start w tid"
| "step w (Wake tid) = timer_callback_resume w tid"
| "step w (Finish tid outcome) = timer_callback_finish w tid outcome"
| "step w (Status phone) = snd (get_buffer_status w phone)"
| "step w (Clear phone) = clear_buffer w phone"
| "step w (Tick t) = w\<lparr>clock := max (clock w) t\<rparr>"

text \<open>A sequence of events, from left to right.\<close>

definition run :: "world \<Rightarrow> event list \<Rightarrow> world" where
  "run w es = foldl step w es"

text \<open>
  The loop with its clock. \<open>timer_step\<close> gives one task its turn: a new task runs up to
  its sleep; a sleeping task is resumed when its cancellation was requested or its wake
  time has come. \<open>run_until w t\<close> moves the clock to \<open>t\<close> and gives every task one turn,
  in the order of creation, which is the order of the wake times since the delay is the
  same for all. A callback that was awaited stays pending: its end is the event
  \<open>Finish\<close>.
\<close>

definition timer_step :: "world \<Rightarrow> task_id \<Rightarrow> world" where
  "timer_step w tid =
     (if tid < length (tasks w)
      then (case phase (tasks w ! tid) of
              Created \<Rightarrow> timer_callback_start w tid
            | Sleeping t \<Rightarrow>
                if must_cancel (tasks w ! tid) \<or> t \<le> clock w
                then timer_callback_resume w tid else w
            | In_callback \<Rightarrow> w
            | Done r \<Rightarrow> w)
      else w)"

definition run_until :: "world \<Rightarrow> seconds \<Rightarrow> world" where
  "run_until w t = foldl timer_step (w\<lparr>clock := max (clock w) t\<rparr>) [0..<length (tasks w)]"

text \<open>
  A message arriving at time \<open>t\<close>: the loop first runs what is due, then
  \<open>add_message\<close>, then the first piece of the task just created. A burst is a list of
  arrival times and texts for one sender.
\<close>

definition deliver :: "world \<Rightarrow> seconds \<Rightarrow> string \<Rightarrow> string \<Rightarrow> world" where
  "deliver w t phone msg =
     (let w1 = add_message (run_until w t) phone msg
      in timer_callback_start w1 (length (tasks w1) - 1))"

fun burst :: "world \<Rightarrow> string \<Rightarrow> (seconds \<times> string) list \<Rightarrow> world" where
  "burst w phone [] = w"
| "burst w phone ((t, msg) # rest) = burst (deliver w t phone msg) phone rest"

text \<open>Arrival times in order, each gap strictly below \<open>d\<close>.\<close>

fun gaps_below :: "seconds \<Rightarrow> seconds list \<Rightarrow> bool" where
  "gaps_below d [] = True"
| "gaps_below d [a] = True"
| "gaps_below d (a # b # rest) = (a \<le> b \<and> b < a + d \<and> gaps_below d (b # rest))"

subsection \<open>Predicates of the properties\<close>

text \<open>
  A task is live for a sender when it is that sender's, has not reached the callback and
  no cancellation was requested: it is a timer that will flush. \<open>calls_for\<close> are the
  calls of the callback for one sender. A sender is \<open>idle\<close> when it has no live timer
  and no buffered fragment, and \<open>pending\<close> when exactly task \<open>k\<close> is its live timer,
  asleep until \<open>wake\<close>, with fragments \<open>msgs\<close> buffered.
\<close>

definition waiting :: "task_phase \<Rightarrow> bool" where
  "waiting p = (case p of Created \<Rightarrow> True | Sleeping t \<Rightarrow> True | In_callback \<Rightarrow> False | Done r \<Rightarrow> False)"

definition live_for :: "string \<Rightarrow> timer \<Rightarrow> bool" where
  "live_for phone t = (task_phone t = phone \<and> \<not> must_cancel t \<and> waiting (phase t))"

definition calls_for :: "string \<Rightarrow> world \<Rightarrow> (string \<times> string) list" where
  "calls_for phone w = filter (\<lambda>c. fst c = phone) (invocations w)"

definition idle :: "world \<Rightarrow> string \<Rightarrow> bool" where
  "idle w phone =
     (list_all (\<lambda>t. \<not> live_for phone t) (tasks w) \<and>
      (case buffers w phone of None \<Rightarrow> True | Some b \<Rightarrow> messages b = []))"

definition pending :: "world \<Rightarrow> string \<Rightarrow> task_id \<Rightarrow> seconds \<Rightarrow> string list \<Rightarrow> bool" where
  "pending w phone k wake msgs =
     (k < length (tasks w) \<and>
      tasks w ! k = \<lparr>task_phone = phone, phase = Sleeping wake, must_cancel = False\<rparr> \<and>
      (\<forall>i < length (tasks w). i \<noteq> k \<longrightarrow> \<not> live_for phone (tasks w ! i)) \<and>
      (case buffers w phone of None \<Rightarrow> False
       | Some b \<Rightarrow> messages b = msgs \<and> timer_task b = Some k))"

text \<open>The cancellation \<open>add_message\<close> requests for the sender's previous timer.\<close>

definition cancel_old :: "world \<Rightarrow> string \<Rightarrow> world" where
  "cancel_old w phone =
     (case buffers w phone of
        None \<Rightarrow> w
      | Some b \<Rightarrow> (case timer_task b of None \<Rightarrow> w | Some old \<Rightarrow> task_cancel w old))"

text \<open>Every buffer is stored under its own phone number and refers to a task of its own
  sender.\<close>

definition well_formed :: "world \<Rightarrow> bool" where
  "well_formed w =
     (\<forall>p b. buffers w p = Some b \<longrightarrow>
        phone_number b = p \<and>
        (case timer_task b of
           None \<Rightarrow> False
         | Some tid \<Rightarrow> tid < length (tasks w) \<and> task_phone (tasks w ! tid) = p))"

text \<open>No tracked buffer has an empty list of fragments.\<close>

definition fragments_nonempty :: "world \<Rightarrow> bool" where
  "fragments_nonempty w = (\<forall>p b. buffers w p = Some b \<longrightarrow> messages b \<noteq> [])"

text \<open>
  The texts handed to \<open>add_message\<close> for one sender over a sequence of events, in
  order. In a state with \<open>own_fragments\<close>, every buffer holds the last of its own
  sender's texts, and every call of the callback was made with consecutive texts of its
  own sender, joined.
\<close>

fun added_for :: "string \<Rightarrow> event list \<Rightarrow> string list" where
  "added_for phone [] = []"
| "added_for phone (Add p m # es) = (if p = phone then m # added_for phone es else added_for phone es)"
| "added_for phone (e # es) = added_for phone es"

definition own_fragments :: "event list \<Rightarrow> world \<Rightarrow> bool" where
  "own_fragments es w =
     ((\<forall>p b. buffers w p = Some b \<longrightarrow> suffix (messages b) (added_for p es)) \<and>
      (\<forall>p t. (p, t) \<in> set (invocations w) \<longrightarrow>
         (\<exists>seg. sublist seg (added_for p es) \<and> t = str_join '' '' seg)))"

section \<open>Properties\<close>

subsection \<open>What each piece leaves unchanged\<close>

lemma set_phase_fields [simp]:
  "buffers (set_phase w tid p) = buffers w"
  "invocations (set_phase w tid p) = invocations w"
  "clock (set_phase w tid p) = clock w"
  "debounce_seconds (set_phase w tid p) = debounce_seconds w"
  "log (set_phase w tid p) = log w"
  "tasks (set_phase w tid p) = (tasks w)[tid := (tasks w ! tid)\<lparr>phase := p\<rparr>]"
  by (simp_all add: set_phase_def)

lemma log_append_fields [simp]:
  "buffers (log_append w rs) = buffers w"
  "invocations (log_append w rs) = invocations w"
  "clock (log_append w rs) = clock w"
  "debounce_seconds (log_append w rs) = debounce_seconds w"
  "log (log_append w rs) = log w @ rs"
  "tasks (log_append w rs) = tasks w"
  by (simp_all add: log_append_def)

lemma task_done_log_append [simp]: "task_done (log_append w rs) tid = task_done w tid"
  by (simp add: task_done_def)

lemma task_cancel_fields [simp]:
  "buffers (task_cancel w tid) = buffers w"
  "invocations (task_cancel w tid) = invocations w"
  "clock (task_cancel w tid) = clock w"
  "debounce_seconds (task_cancel w tid) = debounce_seconds w"
  "log (task_cancel w tid) = log w"
  "length (tasks (task_cancel w tid)) = length (tasks w)"
  by (simp_all add: task_cancel_def)

lemma task_cancel_nth:
  "i < length (tasks w) \<Longrightarrow>
   tasks (task_cancel w tid) ! i =
     (if i = tid \<and> \<not> task_done w tid then (tasks w ! i)\<lparr>must_cancel := True\<rparr> else tasks w ! i)"
  by (simp add: task_cancel_def nth_list_update)

lemma create_task_fields [simp]:
  "fst (create_task w phone) = length (tasks w)"
  "buffers (snd (create_task w phone)) = buffers w"
  "invocations (snd (create_task w phone)) = invocations w"
  "clock (snd (create_task w phone)) = clock w"
  "debounce_seconds (snd (create_task w phone)) = debounce_seconds w"
  "log (snd (create_task w phone)) = log w"
  "tasks (snd (create_task w phone)) =
     tasks w @ [\<lparr>task_phone = phone, phase = Created, must_cancel = False\<rparr>]"
  by (simp_all add: create_task_def)

lemma task_cancel_done: "task_done w tid \<Longrightarrow> task_cancel w tid = w"
  by (simp add: task_cancel_def)

lemma add_message_tasks:
  "tasks (add_message w phone msg) =
     tasks (cancel_old w phone) @ [\<lparr>task_phone = phone, phase = Created, must_cancel = False\<rparr>]"
  by (auto simp: add_message_def cancel_old_def Let_def split_beta new_buffer_def task_cancel_done
      split: option.splits)

lemma add_message_fields [simp]:
  "invocations (add_message w phone msg) = invocations w"
  "clock (add_message w phone msg) = clock w"
  "debounce_seconds (add_message w phone msg) = debounce_seconds w"
  by (auto simp: add_message_def Let_def split_beta split: option.splits)

lemma add_message_buffers:
  "buffers (add_message w phone msg) =
     (buffers w)(phone \<mapsto>
        (case buffers w phone of None \<Rightarrow> new_buffer phone (clock w) | Some b \<Rightarrow> b)
          \<lparr>messages := messages (case buffers w phone of None \<Rightarrow> new_buffer phone (clock w) | Some b \<Rightarrow> b) @ [msg],
           last_updated := clock w, timer_task := Some (length (tasks w))\<rparr>)"
  by (auto simp: add_message_def Let_def split_beta buffer_add_message_def new_buffer_def
      split: option.splits)

lemma timer_callback_start_fields [simp]:
  "buffers (timer_callback_start w tid) = buffers w"
  "invocations (timer_callback_start w tid) = invocations w"
  "clock (timer_callback_start w tid) = clock w"
  "debounce_seconds (timer_callback_start w tid) = debounce_seconds w"
  "log (timer_callback_start w tid) = log w"
  "length (tasks (timer_callback_start w tid)) = length (tasks w)"
  by (simp_all add: timer_callback_start_def)

lemma timer_callback_resume_fields [simp]:
  "clock (timer_callback_resume w tid) = clock w"
  "debounce_seconds (timer_callback_resume w tid) = debounce_seconds w"
  "length (tasks (timer_callback_resume w tid)) = length (tasks w)"
  by (simp_all add: timer_callback_resume_def Let_def split: option.splits)

lemma timer_step_fields [simp]:
  "clock (timer_step w tid) = clock w"
  "debounce_seconds (timer_step w tid) = debounce_seconds w"
  "length (tasks (timer_step w tid)) = length (tasks w)"
  by (simp_all add: timer_step_def split: task_phase.splits)

text \<open>What one step of the loop does to a task other than the one it runs.\<close>

lemma timer_step_other_task:
  "i \<noteq> tid \<Longrightarrow> tasks (timer_step w tid) ! i = tasks w ! i"
  by (auto simp: timer_step_def timer_callback_start_def timer_callback_resume_def Let_def
      split: task_phase.splits option.splits)

lemma timer_step_same_task:
  "tid < length (tasks w) \<Longrightarrow>
   task_phone (tasks (timer_step w tid) ! tid) = task_phone (tasks w ! tid) \<and>
   must_cancel (tasks (timer_step w tid) ! tid) = must_cancel (tasks w ! tid)"
  by (auto simp: timer_step_def timer_callback_start_def timer_callback_resume_def Let_def
      split: task_phase.splits option.splits)


lemma timer_step_out_of_range: "\<not> tid < length (tasks w) \<Longrightarrow> timer_step w tid = w"
  by (simp add: timer_step_def)

lemma calls_for_fields [simp]:
  "calls_for phone (set_phase w tid p) = calls_for phone w"
  "calls_for phone (log_append w rs) = calls_for phone w"
  "calls_for phone (timer_callback_start w tid) = calls_for phone w"
  "calls_for phone (add_message w phone' msg) = calls_for phone w"
  "calls_for phone (w\<lparr>clock := c\<rparr>) = calls_for phone w"
  by (simp_all add: calls_for_def)

lemma timer_step_quiet:
  assumes "tid < length (tasks w)" and "\<not> live_for phone (tasks w ! tid)"
  shows "buffers (timer_step w tid) phone = buffers w phone"
    and "calls_for phone (timer_step w tid) = calls_for phone w"
    and "\<not> live_for phone (tasks (timer_step w tid) ! tid)"
  using assms
  by (auto simp: timer_step_def timer_callback_start_def timer_callback_resume_def Let_def
      live_for_def waiting_def calls_for_def
      split: task_phase.splits option.splits)


lemma foldl_preserves:
  "(\<And>s x. x \<in> set xs \<Longrightarrow> P s \<Longrightarrow> P (f s x)) \<Longrightarrow> P s \<Longrightarrow> P (foldl f s xs)"
  by (induction xs arbitrary: s) simp_all

lemma idle_nth:
  "idle w phone \<longleftrightarrow>
     (\<forall>i < length (tasks w). \<not> live_for phone (tasks w ! i)) \<and>
     (case buffers w phone of None \<Rightarrow> True | Some b \<Rightarrow> messages b = [])"
  by (simp add: idle_def list_all_length)

lemma timer_step_idle:
  assumes "idle w phone"
  shows "idle (timer_step w tid) phone \<and> calls_for phone (timer_step w tid) = calls_for phone w"
proof (cases "tid < length (tasks w)")
  case False
  with assms show ?thesis by (simp add: timer_step_out_of_range)
next
  case True
  from assms have q: "\<not> live_for phone (tasks w ! tid)"
    using True by (simp add: idle_nth)
  have "\<not> live_for phone (tasks (timer_step w tid) ! i)" if "i < length (tasks w)" for i
  proof (cases "i = tid")
    case True
    with timer_step_quiet(3) [OF \<open>tid < length (tasks w)\<close> q] show ?thesis by simp
  next
    case False
    with assms that show ?thesis by (simp add: timer_step_other_task idle_nth)
  qed
  with assms timer_step_quiet(1,2) [OF True q] show ?thesis
    by (simp add: idle_nth)
qed

lemma timer_step_pending_other:
  assumes "pending w phone k wake msgs" and "tid \<noteq> k"
  shows "pending (timer_step w tid) phone k wake msgs \<and>
         calls_for phone (timer_step w tid) = calls_for phone w"
proof (cases "tid < length (tasks w)")
  case False
  with assms show ?thesis by (simp add: timer_step_out_of_range)
next
  case True
  from assms True have q: "\<not> live_for phone (tasks w ! tid)"
    by (simp add: pending_def)
  have "\<not> live_for phone (tasks (timer_step w tid) ! i)"
    if "i < length (tasks w)" "i \<noteq> k" for i
  proof (cases "i = tid")
    case True
    with timer_step_quiet(3) [OF \<open>tid < length (tasks w)\<close> q] show ?thesis by simp
  next
    case False
    with assms that show ?thesis by (simp add: timer_step_other_task pending_def)
  qed
  moreover have "tasks (timer_step w tid) ! k = tasks w ! k"
    using assms(2) by (simp add: timer_step_other_task)
  ultimately show ?thesis
    using assms(1) timer_step_quiet(1,2) [OF True q] by (simp add: pending_def)
qed

lemma timer_step_pending_early:
  assumes "pending w phone k wake msgs" and "clock w < wake"
  shows "timer_step w k = w"
  using assms by (simp add: pending_def timer_step_def)

lemma timer_step_pending_due:
  assumes "pending w phone k wake msgs" and "wake \<le> clock w"
  shows "idle (timer_step w k) phone"
    and "calls_for phone (timer_step w k) = calls_for phone w @ [(phone, str_join '' '' msgs)]"
    and "\<exists>b. buffers (timer_step w k) phone = Some b \<and> messages b = []"
proof -
  from assms obtain b where b: "buffers w phone = Some b" "messages b = msgs"
    and k: "k < length (tasks w)"
      "tasks w ! k = \<lparr>task_phone = phone, phase = Sleeping wake, must_cancel = False\<rparr>"
    by (auto simp: pending_def split: option.splits)
  have step: "timer_step w k = timer_callback_resume w k"
    using k assms(2) by (simp add: timer_step_def)
  show "calls_for phone (timer_step w k) = calls_for phone w @ [(phone, str_join '' '' msgs)]"
    using k b by (simp add: step timer_callback_resume_def Let_def calls_for_def
        get_aggregated_text_def)
  show "\<exists>b. buffers (timer_step w k) phone = Some b \<and> messages b = []"
    using k b by (simp add: step timer_callback_resume_def Let_def buffer_clear_def)
  have "\<not> live_for phone (tasks (timer_step w k) ! i)" if "i < length (tasks w)" for i
  proof (cases "i = k")
    case True
    then show ?thesis
      using k b by (simp add: step timer_callback_resume_def Let_def live_for_def waiting_def)
  next
    case False
    with assms(1) that show ?thesis by (simp add: timer_step_other_task pending_def)
  qed
  moreover have "messages (the (buffers (timer_step w k) phone)) = []"
    using k b by (simp add: step timer_callback_resume_def Let_def buffer_clear_def)
  ultimately show "idle (timer_step w k) phone"
    using k b by (auto simp: idle_nth split: option.splits)
qed


lemma idle_clock [simp]: "idle (w\<lparr>clock := c\<rparr>) phone = idle w phone"
  by (simp add: idle_def)

lemma pending_clock [simp]: "pending (w\<lparr>clock := c\<rparr>) phone k wake msgs = pending w phone k wake msgs"
  by (simp add: pending_def)

lemma foldl_timer_step_fields [simp]:
  "clock (foldl timer_step w tids) = clock w"
  "debounce_seconds (foldl timer_step w tids) = debounce_seconds w"
  "length (tasks (foldl timer_step w tids)) = length (tasks w)"
  by (induction tids arbitrary: w) simp_all

lemma run_until_fields [simp]:
  "clock (run_until w t) = max (clock w) t"
  "debounce_seconds (run_until w t) = debounce_seconds w"
  "length (tasks (run_until w t)) = length (tasks w)"
  by (simp_all add: run_until_def)

lemma foldl_timer_step_idle:
  "idle w phone \<Longrightarrow>
   idle (foldl timer_step w tids) phone \<and>
   calls_for phone (foldl timer_step w tids) = calls_for phone w"
proof (induction tids arbitrary: w)
  case Nil
  then show ?case by simp
next
  case (Cons tid tids)
  from timer_step_idle [OF Cons.prems, of tid] Cons.IH [of "timer_step w tid"]
  show ?case by simp
qed

lemma foldl_timer_step_pending:
  "pending w phone k wake msgs \<Longrightarrow> k \<notin> set tids \<or> clock w < wake \<Longrightarrow>
   pending (foldl timer_step w tids) phone k wake msgs \<and>
   calls_for phone (foldl timer_step w tids) = calls_for phone w"
proof (induction tids arbitrary: w)
  case Nil
  then show ?case by simp
next
  case (Cons tid tids)
  have one: "pending (timer_step w tid) phone k wake msgs \<and>
             calls_for phone (timer_step w tid) = calls_for phone w"
  proof (cases "tid = k")
    case True
    with Cons.prems have "clock w < wake" by simp
    with Cons.prems(1) True show ?thesis by (simp add: timer_step_pending_early)
  next
    case False
    with Cons.prems(1) show ?thesis by (simp add: timer_step_pending_other)
  qed
  moreover have "k \<notin> set tids \<or> clock (timer_step w tid) < wake"
    using Cons.prems(2) by auto
  ultimately show ?case
    using Cons.IH [of "timer_step w tid"] by simp
qed

lemma run_until_idle:
  "idle w phone \<Longrightarrow>
   idle (run_until w t) phone \<and> calls_for phone (run_until w t) = calls_for phone w"
  using foldl_timer_step_idle [of "w\<lparr>clock := max (clock w) t\<rparr>" phone "[0..<length (tasks w)]"]
  by (simp add: run_until_def)

lemma run_until_pending_early:
  "pending w phone k wake msgs \<Longrightarrow> max (clock w) t < wake \<Longrightarrow>
   pending (run_until w t) phone k wake msgs \<and>
   calls_for phone (run_until w t) = calls_for phone w"
  using foldl_timer_step_pending [of "w\<lparr>clock := max (clock w) t\<rparr>" phone k wake msgs
      "[0..<length (tasks w)]"]
  by (simp add: run_until_def)

lemma upt_split_at:
  assumes "k < n"
  shows "[0..<n] = [0..<k] @ k # [Suc k..<n]"
proof -
  have "[0..<k + (n - k)] = [0..<k] @ [k..<k + (n - k)]"
    by (rule upt_add_eq_append) simp
  with assms show ?thesis by (simp add: upt_conv_Cons)
qed

lemma run_until_pending_due:
  assumes "pending w phone k wake msgs" and "wake \<le> max (clock w) t"
  shows "idle (run_until w t) phone"
    and "calls_for phone (run_until w t) = calls_for phone w @ [(phone, str_join '' '' msgs)]"
proof -
  define w0 where "w0 = w\<lparr>clock := max (clock w) t\<rparr>"
  define w1 where "w1 = foldl timer_step w0 [0..<k]"
  define w2 where "w2 = timer_step w1 k"
  have k: "k < length (tasks w)" using assms(1) by (simp add: pending_def)
  have run: "run_until w t = foldl timer_step w2 [Suc k..<length (tasks w)]"
    by (simp add: run_until_def upt_split_at [OF k] w0_def w1_def w2_def)
  have p0: "pending w0 phone k wake msgs" using assms(1) by (simp add: w0_def)
  have p1: "pending w1 phone k wake msgs \<and> calls_for phone w1 = calls_for phone w0"
    unfolding w1_def using foldl_timer_step_pending [OF p0, of "[0..<k]"] by simp
  have c1: "wake \<le> clock w1" using assms(2) by (simp add: w1_def w0_def)
  have i2: "idle w2 phone"
    and c2: "calls_for phone w2 = calls_for phone w1 @ [(phone, str_join '' '' msgs)]"
    unfolding w2_def using timer_step_pending_due [OF conjunct1 [OF p1] c1] by simp_all
  from foldl_timer_step_idle [OF i2, of "[Suc k..<length (tasks w)]"] p1 c2
  show "idle (run_until w t) phone"
    and "calls_for phone (run_until w t) = calls_for phone w @ [(phone, str_join '' '' msgs)]"
    by (simp_all add: run w0_def)
qed


lemma cancel_old_length [simp]: "length (tasks (cancel_old w phone)) = length (tasks w)"
  by (simp add: cancel_old_def split: option.splits)

lemma live_for_cancelled [simp]: "\<not> live_for phone (t\<lparr>must_cancel := True\<rparr>)"
  by (simp add: live_for_def)

lemma cancel_old_idle:
  "idle w phone \<Longrightarrow> i < length (tasks w) \<Longrightarrow> \<not> live_for phone (tasks (cancel_old w phone) ! i)"
  by (simp add: cancel_old_def idle_nth task_cancel_nth split: option.splits)

lemma cancel_old_pending:
  "pending w phone k wake msgs \<Longrightarrow> i < length (tasks w) \<Longrightarrow>
   \<not> live_for phone (tasks (cancel_old w phone) ! i)"
  by (auto simp: cancel_old_def pending_def task_cancel_nth task_done_def split: option.splits)

lemma add_then_start:
  assumes quiet: "\<And>i. i < length (tasks w) \<Longrightarrow> \<not> live_for phone (tasks (cancel_old w phone) ! i)"
  shows "pending (timer_callback_start (add_message w phone msg) (length (tasks w))) phone
           (length (tasks w)) (clock w + sleep_delay (debounce_seconds w))
           ((case buffers w phone of None \<Rightarrow> [] | Some b \<Rightarrow> messages b) @ [msg])"
proof -
  let ?n = "length (tasks w)"
  let ?w1 = "add_message w phone msg"
  let ?w2 = "timer_callback_start ?w1 ?n"
  have t1: "tasks ?w1 = tasks (cancel_old w phone) @
              [\<lparr>task_phone = phone, phase = Created, must_cancel = False\<rparr>]"
    by (rule add_message_tasks)
  have t2: "tasks ?w2 = tasks (cancel_old w phone) @
              [\<lparr>task_phone = phone,
                phase = Sleeping (clock w + sleep_delay (debounce_seconds w)),
                must_cancel = False\<rparr>]"
    by (simp add: timer_callback_start_def t1 nth_append list_update_append)
  have "\<not> live_for phone (tasks ?w2 ! i)" if "i < length (tasks ?w2)" "i \<noteq> ?n" for i
    using that quiet [of i] by (simp add: t2 nth_append)
  moreover have "tasks ?w2 ! ?n =
      \<lparr>task_phone = phone, phase = Sleeping (clock w + sleep_delay (debounce_seconds w)),
       must_cancel = False\<rparr>"
    by (simp add: t2 nth_append)
  moreover have "?n < length (tasks ?w2)" by (simp add: t2)
  ultimately show ?thesis
    by (simp add: pending_def add_message_buffers new_buffer_def split: option.splits)
qed

lemma deliver_fields [simp]:
  "clock (deliver w t phone msg) = max (clock w) t"
  "debounce_seconds (deliver w t phone msg) = debounce_seconds w"
  "calls_for phone' (deliver w t phone msg) = calls_for phone' (run_until w t)"
  by (simp_all add: deliver_def Let_def)

lemma deliver_start:
  "deliver w t phone msg =
     timer_callback_start (add_message (run_until w t) phone msg) (length (tasks (run_until w t)))"
  by (simp add: deliver_def Let_def add_message_tasks)

lemma deliver_idle:
  assumes "idle w phone"
  shows "pending (deliver w t phone msg) phone (length (tasks w))
           (max (clock w) t + sleep_delay (debounce_seconds w)) [msg] \<and>
         calls_for phone (deliver w t phone msg) = calls_for phone w"
proof -
  let ?r = "run_until w t"
  have r: "idle ?r phone" "calls_for phone ?r = calls_for phone w"
    using run_until_idle [OF assms, of t] by simp_all
  have "(case buffers ?r phone of None \<Rightarrow> [] | Some b \<Rightarrow> messages b) = []"
    using r(1) by (simp add: idle_nth split: option.splits)
  with add_then_start [of ?r phone msg] cancel_old_idle [OF r(1)] r(2)
  show ?thesis by (simp add: deliver_start)
qed

lemma deliver_pending:
  assumes "pending w phone k wake msgs" and "max (clock w) t < wake"
  shows "pending (deliver w t phone msg) phone (length (tasks w))
           (max (clock w) t + sleep_delay (debounce_seconds w)) (msgs @ [msg]) \<and>
         calls_for phone (deliver w t phone msg) = calls_for phone w"
proof -
  let ?r = "run_until w t"
  have r: "pending ?r phone k wake msgs" "calls_for phone ?r = calls_for phone w"
    using run_until_pending_early [OF assms] by simp_all
  have "(case buffers ?r phone of None \<Rightarrow> [] | Some b \<Rightarrow> messages b) = msgs"
    using r(1) by (simp add: pending_def split: option.splits)
  with add_then_start [of ?r phone msg] cancel_old_pending [OF r(1)] r(2)
  show ?thesis by (simp add: deliver_start)
qed

lemma burst_pending:
  "pending w phone k (clock w + sleep_delay (debounce_seconds w)) msgs \<Longrightarrow>
   gaps_below (debounce_seconds w) (clock w # map fst adds) \<Longrightarrow>
   \<exists>k'. pending (burst w phone adds) phone k'
          (last (clock w # map fst adds) + sleep_delay (debounce_seconds w))
          (msgs @ map snd adds) \<and>
        calls_for phone (burst w phone adds) = calls_for phone w \<and>
        clock (burst w phone adds) = last (clock w # map fst adds) \<and>
        debounce_seconds (burst w phone adds) = debounce_seconds w"
proof (induction adds arbitrary: w k msgs)
  case Nil
  then show ?case by auto
next
  case (Cons a adds)
  obtain t msg where a: "a = (t, msg)" by (cases a)
  let ?d = "debounce_seconds w"
  let ?w' = "deliver w t phone msg"
  from Cons.prems(2) a have t: "clock w \<le> t" "t < clock w + ?d"
    and rest: "gaps_below ?d (t # map fst adds)" by simp_all
  then have mx: "max (clock w) t = t" and early: "t < clock w + sleep_delay ?d"
    by (simp_all add: sleep_delay_def)
  from deliver_pending [OF Cons.prems(1), of t msg] mx early
  have p: "pending ?w' phone (length (tasks w)) (clock ?w' + sleep_delay (debounce_seconds ?w'))
             (msgs @ [msg])"
    and c: "calls_for phone ?w' = calls_for phone w"
    by simp_all
  have g: "gaps_below (debounce_seconds ?w') (clock ?w' # map fst adds)"
    using rest mx by simp
  from Cons.IH [OF p g] c mx a show ?case by simp
qed

lemma str_join_Cons: "str_join sep (x # xs) = x @ concat (map (\<lambda>y. sep @ y) xs)"
  by (induction xs arbitrary: x) simp_all

lemma burst_flush:
  assumes i: "idle w phone" and now: "clock w \<le> a"
    and gaps: "gaps_below (debounce_seconds w) (a # map fst rest)"
  shows "calls_for phone (burst w phone ((a, m) # rest)) = calls_for phone w"
    and "last (a # map fst rest) + sleep_delay (debounce_seconds w) \<le> T \<Longrightarrow>
         calls_for phone (run_until (burst w phone ((a, m) # rest)) T) =
           calls_for phone w @ [(phone, str_join '' '' (m # map snd rest))]"
    and "last (a # map fst rest) + sleep_delay (debounce_seconds w) \<le> T \<Longrightarrow>
         idle (run_until (burst w phone ((a, m) # rest)) T) phone"
    and "last (a # map fst rest) \<le> T \<Longrightarrow>
         T < last (a # map fst rest) + sleep_delay (debounce_seconds w) \<Longrightarrow>
         calls_for phone (run_until (burst w phone ((a, m) # rest)) T) = calls_for phone w"
proof -
  let ?w1 = "deliver w a phone m"
  let ?d = "sleep_delay (debounce_seconds w)"
  have mx: "max (clock w) a = a" using now by simp
  from deliver_idle [OF i, of a m] mx
  have p1: "pending ?w1 phone (length (tasks w)) (clock ?w1 + sleep_delay (debounce_seconds ?w1)) [m]"
    and c1: "calls_for phone ?w1 = calls_for phone w"
    by simp_all
  have g1: "gaps_below (debounce_seconds ?w1) (clock ?w1 # map fst rest)"
    using gaps mx by simp
  from burst_pending [OF p1 g1] obtain k where
    pk: "pending (burst ?w1 phone rest) phone k (last (a # map fst rest) + ?d) (m # map snd rest)"
    and ck: "calls_for phone (burst ?w1 phone rest) = calls_for phone w"
    and clk: "clock (burst ?w1 phone rest) = last (a # map fst rest)"
    using c1 mx by auto
  show "calls_for phone (burst w phone ((a, m) # rest)) = calls_for phone w"
    using ck by simp
  have d0: "0 \<le> ?d" by (simp add: sleep_delay_def)
  {
    assume T: "last (a # map fst rest) + ?d \<le> T"
    then have "last (a # map fst rest) + ?d \<le> max (clock (burst ?w1 phone rest)) T" by simp
    from run_until_pending_due [OF pk this] ck
    show "calls_for phone (run_until (burst w phone ((a, m) # rest)) T) =
            calls_for phone w @ [(phone, str_join '' '' (m # map snd rest))]"
      and "idle (run_until (burst w phone ((a, m) # rest)) T) phone"
      by simp_all
  }
  {
    assume T: "last (a # map fst rest) \<le> T" "T < last (a # map fst rest) + ?d"
    then have "max (clock (burst ?w1 phone rest)) T < last (a # map fst rest) + ?d"
      using clk by simp
    from run_until_pending_early [OF pk this] ck
    show "calls_for phone (run_until (burst w phone ((a, m) # rest)) T) = calls_for phone w"
      by simp
  }
qed


subsection \<open>The fresh manager\<close>

lemma idle_init: "idle (projr (init d now)) phone"
  by (simp add: init_def idle_def)

section \<open>The claims\<close>

text \<open>
  C1 (coalescing). A sender with no live timer and no buffered fragment receives
  messages \<open>m\<close>, then those of \<open>rest\<close>, at times in order whose gaps are all strictly
  below the debounce duration. While the burst lasts the callback is not called for the
  sender; once the loop has reached the last arrival plus the delay, it has been called
  exactly once more, with the fragments in arrival order and one space between two
  neighbours.
\<close>

theorem coalescing:
  assumes "idle w phone"
    and "clock w \<le> a"
    and "gaps_below (debounce_seconds w) (a # map fst rest)"
    and "last (a # map fst rest) + sleep_delay (debounce_seconds w) \<le> T"
  shows "calls_for phone (burst w phone ((a, m) # rest)) = calls_for phone w \<and>
         calls_for phone (run_until (burst w phone ((a, m) # rest)) T) =
           calls_for phone w @ [(phone, m @ concat (map (\<lambda>x. '' '' @ x) (map snd rest)))]"
  using burst_flush(1) [OF assms(1-3), where m = m]
    burst_flush(2) [OF assms(1-3) assms(4), where m = m]
  by (simp add: str_join_Cons)

text \<open>The scenario of the specification: three messages at times 0, 1 and 2 with a
  debounce duration of 3, looked at from time 5; then one more message at time 6,
  looked at from time 9.\<close>

theorem coalescing_witness:
  "idle (projr (init 3 0)) ''U1'' \<and>
   gaps_below 3 [0, 1, 2] \<and>
   calls_for ''U1'' (burst (projr (init 3 0)) ''U1''
      [(0, ''Hi''), (1, ''there''), (2, ''how are you'')]) = [] \<and>
   calls_for ''U1'' (run_until (burst (projr (init 3 0)) ''U1''
      [(0, ''Hi''), (1, ''there''), (2, ''how are you'')]) 5) =
     [(''U1'', ''Hi there how are you'')] \<and>
   calls_for ''U1'' (run_until (burst (run_until (burst (projr (init 3 0)) ''U1''
      [(0, ''Hi''), (1, ''there''), (2, ''how are you'')]) 5) ''U1'' [(6, ''new msg'')]) 9) =
     [(''U1'', ''Hi there how are you''), (''U1'', ''new msg'')]"
proof -
  have i: "idle (projr (init 3 0)) ''U1''" by (rule idle_init)
  have c: "clock (projr (init 3 0)) \<le> 0" by (simp add: init_def)
  have g: "gaps_below (debounce_seconds (projr (init 3 0)))
             (0 # map fst [(1, ''there''), (2, ''how are you'')])"
    by (simp add: init_def)
  have T: "last (0 # map fst [(1 :: rat, ''there''), (2, ''how are you'')]) +
             sleep_delay (debounce_seconds (projr (init 3 0))) \<le> 5"
    by (simp add: init_def sleep_delay_def)
  have z: "calls_for ''U1'' (projr (init 3 0)) = []" by (simp add: init_def calls_for_def)
  note first = coalescing [OF i c g T, of "''Hi''"]
  let ?w5 = "run_until (burst (projr (init 3 0)) ''U1''
      ((0, ''Hi'') # [(1, ''there''), (2, ''how are you'')])) 5"
  have i5: "idle ?w5 ''U1''" by (rule burst_flush(3) [OF i c g T])
  have c5: "clock ?w5 \<le> 6" by (simp add: init_def)
  have g5: "gaps_below (debounce_seconds ?w5) (6 # map fst ([] :: (rat \<times> string) list))"
    by simp
  have T5: "last (6 # map fst ([] :: (rat \<times> string) list)) +
      sleep_delay (debounce_seconds ?w5) \<le> 9"
    by (simp add: init_def sleep_delay_def)
  note second = coalescing [OF i5 c5 g5 T5, of "''new msg''"]
  from first second i z show ?thesis by simp
qed


text \<open>
  C4 (configuration validation), as the code has it: the constructor checks nothing.
  For every duration, positive or not, construction succeeds, stores that duration and
  starts with no buffer and no task.
\<close>

theorem init_stores_any_duration:
  "\<exists>w. init d now = Inr w \<and> debounce_seconds w = d \<and> buffers w = Map.empty \<and> tasks w = []"
  by (simp add: init_def)

text \<open>Against C4 as stated: construction with the durations \<open>-1\<close> and \<open>0\<close> does not
  fail; it returns a manager that stores them.\<close>

theorem init_nonpositive_succeeds:
  "map_sum id debounce_seconds (init (- 1) 0) = Inr (- 1) \<and>
   map_sum id debounce_seconds (init 0 0) = Inr 0"
  by (simp add: init_def)

subsection \<open>Clearing a buffer\<close>

lemma clear_buffer_absent: "buffers w phone = None \<Longrightarrow> clear_buffer w phone = w"
  by (simp add: clear_buffer_def)

lemma clear_buffer_buffers:
  "buffers (clear_buffer w phone) = (buffers w)(phone := None)"
  by (auto simp: clear_buffer_def Let_def split: option.splits)

lemma clear_buffer_fields [simp]:
  "invocations (clear_buffer w phone) = invocations w"
  "clock (clear_buffer w phone) = clock w"
  "debounce_seconds (clear_buffer w phone) = debounce_seconds w"
  "length (tasks (clear_buffer w phone)) = length (tasks w)"
  by (simp_all add: clear_buffer_def Let_def split: option.splits)

lemma clear_buffer_tasks:
  "buffers w phone = Some b \<Longrightarrow>
   tasks (clear_buffer w phone) =
     tasks (case timer_task b of None \<Rightarrow> w | Some tid \<Rightarrow> task_cancel w tid)"
  by (simp add: clear_buffer_def Let_def split: option.splits)

text \<open>
  C7 (clear). With no buffer for the sender, \<open>clear_buffer\<close> changes nothing, the log
  included. With a buffer, it removes the entry and nothing else from the dictionary, so
  the unflushed fragments are gone; the tasks are those left by \<open>cancel()\<close> on the
  buffer's task (when it has one), and a task that was not done has its cancellation
  requested; no callback is called. Clearing twice is the same as clearing once.
\<close>

theorem clear_buffer_semantics:
  "(buffers w phone = None \<longrightarrow> clear_buffer w phone = w) \<and>
   (\<forall>b. buffers w phone = Some b \<longrightarrow>
      buffers (clear_buffer w phone) = (buffers w)(phone := None) \<and>
      tasks (clear_buffer w phone) =
        tasks (case timer_task b of None \<Rightarrow> w | Some tid \<Rightarrow> task_cancel w tid) \<and>
      invocations (clear_buffer w phone) = invocations w \<and>
      log (clear_buffer w phone) = log w @ [Log_cleared_buffer phone] \<and>
      (\<forall>tid. timer_task b = Some tid \<and> tid < length (tasks w) \<and> \<not> task_done w tid \<longrightarrow>
         must_cancel (tasks (clear_buffer w phone) ! tid))) \<and>
   clear_buffer (clear_buffer w phone) phone = clear_buffer w phone"
proof (intro conjI allI impI)
  assume "buffers w phone = None"
  then show "clear_buffer w phone = w" by (rule clear_buffer_absent)
next
  show "clear_buffer (clear_buffer w phone) phone = clear_buffer w phone"
    by (rule clear_buffer_absent) (simp add: clear_buffer_buffers)
next
  fix b assume b: "buffers w phone = Some b"
  show "buffers (clear_buffer w phone) = (buffers w)(phone := None)"
    by (rule clear_buffer_buffers)
  show "tasks (clear_buffer w phone) =
        tasks (case timer_task b of None \<Rightarrow> w | Some tid \<Rightarrow> task_cancel w tid)"
    using b by (rule clear_buffer_tasks)
  show "invocations (clear_buffer w phone) = invocations w" by simp
  show "log (clear_buffer w phone) = log w @ [Log_cleared_buffer phone]"
    using b by (simp add: clear_buffer_def Let_def split: option.splits)
  fix tid assume "timer_task b = Some tid \<and> tid < length (tasks w) \<and> \<not> task_done w tid"
  then show "must_cancel (tasks (clear_buffer w phone) ! tid)"
    using b by (simp add: clear_buffer_tasks task_cancel_nth)
qed

text \<open>The manager with a debounce duration of 3 after the first message of \<open>U1\<close>.\<close>

lemma world_one:
  "add_message (projr (init 3 0)) ''U1'' ''Hi'' =
     \<lparr>debounce_seconds = 3,
      buffers = [''U1'' \<mapsto> \<lparr>phone_number = ''U1'', messages = [''Hi''], timer_task = Some 0,
                            created_at = 0, last_updated = 0\<rparr>],
      tasks = [\<lparr>task_phone = ''U1'', phase = Created, must_cancel = False\<rparr>],
      clock = 0, invocations = [],
      log = [Log_initialized 3, Log_created_buffer ''U1'', Log_buffered ''U1'' ''Hi'',
             Log_buffer_count 1, Log_started_timer 3 ''U1'']\<rparr>"
  by (simp add: init_def add_message_def Let_def new_buffer_def buffer_add_message_def
      create_task_def log_append_def)

text \<open>Clearing an untracked sender, and clearing \<open>U1\<close> while its first timer is
  pending.\<close>

theorem clear_buffer_semantics_witness:
  "clear_buffer (projr (init 3 0)) ''U1'' = projr (init 3 0) \<and>
   buffers (clear_buffer (add_message (projr (init 3 0)) ''U1'' ''Hi'') ''U1'') ''U1'' = None \<and>
   must_cancel (tasks (clear_buffer (add_message (projr (init 3 0)) ''U1'' ''Hi'') ''U1'') ! 0) \<and>
   clear_buffer (clear_buffer (add_message (projr (init 3 0)) ''U1'' ''Hi'') ''U1'') ''U1'' =
     clear_buffer (add_message (projr (init 3 0)) ''U1'' ''Hi'') ''U1''"
proof -
  let ?w1 = "add_message (projr (init 3 0)) ''U1'' ''Hi''"
  have a: "buffers (projr (init 3 0)) ''U1'' = None" by (simp add: init_def)
  have "\<exists>b. buffers ?w1 ''U1'' = Some b \<and> timer_task b = Some 0"
    by (simp add: world_one)
  then obtain b where b: "buffers ?w1 ''U1'' = Some b" "timer_task b = Some 0" by blast
  have t: "0 < length (tasks ?w1)" "\<not> task_done ?w1 0"
    by (simp_all add: world_one task_done_def)
  from clear_buffer_semantics [of "projr (init 3 0)" "''U1''"] a
  have 1: "clear_buffer (projr (init 3 0)) ''U1'' = projr (init 3 0)" by blast
  from clear_buffer_semantics [of ?w1 "''U1''"] b
  have 2: "buffers (clear_buffer ?w1 ''U1'') = (buffers ?w1)(''U1'' := None)"
    and 4: "clear_buffer (clear_buffer ?w1 ''U1'') ''U1'' = clear_buffer ?w1 ''U1''"
    by blast+
  from clear_buffer_semantics [of ?w1 "''U1''"] b t
  have 3: "must_cancel (tasks (clear_buffer ?w1 ''U1'') ! 0)"
    by blast
  from 1 2 3 4 show ?thesis by simp
qed


subsection \<open>The pieces of the timer task, in closed form\<close>

lemma resume_flush:
  assumes "tid < length (tasks w)" and "phase (tasks w ! tid) = Sleeping t"
    and "\<not> must_cancel (tasks w ! tid)" and "buffers w (task_phone (tasks w ! tid)) = Some b"
  shows "timer_callback_resume w tid =
     w\<lparr>buffers := (buffers w)(task_phone (tasks w ! tid) \<mapsto> b\<lparr>messages := []\<rparr>),
       tasks := (tasks w)[tid := (tasks w ! tid)\<lparr>phase := In_callback\<rparr>],
       invocations := invocations w @
         [(task_phone (tasks w ! tid), str_join '' '' (messages b))],
       log := log w @ [Log_timer_expired (task_phone (tasks w ! tid)) (length (messages b))
                         (str_join '' '' (messages b))]\<rparr>"
  using assms
  by (simp add: timer_callback_resume_def Let_def log_append_def set_phase_def
      buffer_clear_def get_aggregated_text_def)

lemma resume_cancelled:
  assumes "tid < length (tasks w)" and "phase (tasks w ! tid) = Sleeping t"
    and "must_cancel (tasks w ! tid)"
  shows "timer_callback_resume w tid =
     w\<lparr>tasks := (tasks w)[tid := (tasks w ! tid)\<lparr>phase := Done None\<rparr>],
       log := log w @ [Log_timer_cancelled (task_phone (tasks w ! tid))]\<rparr>"
  using assms
  by (simp add: timer_callback_resume_def Let_def log_append_def set_phase_def)

lemma timer_callback_finish_fields [simp]:
  "buffers (timer_callback_finish w tid outcome) = buffers w"
  "invocations (timer_callback_finish w tid outcome) = invocations w"
  "clock (timer_callback_finish w tid outcome) = clock w"
  "debounce_seconds (timer_callback_finish w tid outcome) = debounce_seconds w"
  "length (tasks (timer_callback_finish w tid outcome)) = length (tasks w)"
  by (simp_all add: timer_callback_finish_def Let_def
      split: callback_outcome.splits py_exception.splits)

lemma finish_raises:
  assumes "tid < length (tasks w)" and "phase (tasks w ! tid) = In_callback"
  shows "timer_callback_finish w tid (Raises CancelledError) =
     w\<lparr>tasks := (tasks w)[tid := (tasks w ! tid)\<lparr>phase := Done None\<rparr>],
       log := log w @ [Log_timer_cancelled (task_phone (tasks w ! tid))]\<rparr>"
    and "timer_callback_finish w tid (Raises (Exception m)) =
     w\<lparr>tasks := (tasks w)[tid := (tasks w ! tid)\<lparr>phase := Done None\<rparr>],
       log := log w @ [Log_callback_error (task_phone (tasks w ! tid)) m]\<rparr>"
    and "timer_callback_finish w tid (Raises (Base_exception n)) =
     w\<lparr>tasks := (tasks w)[tid := (tasks w ! tid)\<lparr>phase := Done (Some (Base_exception n))\<rparr>]\<rparr>"
  using assms
  by (simp_all add: timer_callback_finish_def Let_def log_append_def set_phase_def)

lemma finish_ends_task:
  assumes "tid < length (tasks w)" and "phase (tasks w ! tid) = In_callback"
  shows "\<exists>r. phase (tasks (timer_callback_finish w tid outcome) ! tid) = Done r"
  using assms
  by (simp add: timer_callback_finish_def Let_def
      split: callback_outcome.splits py_exception.splits)

lemma done_task_stays:
  assumes "tid < length (tasks w)" and "phase (tasks w ! tid) = Done r"
  shows "timer_callback_start w tid = w" and "timer_callback_resume w tid = w"
    and "timer_callback_finish w tid outcome = w" and "timer_step w tid = w"
  using assms
  by (simp_all add: timer_callback_start_def timer_callback_resume_def
      timer_callback_finish_def timer_step_def)

text \<open>
  C5 (callback failure), as the code has it. A task is awaiting the callback and the
  callback raises \<open>e\<close>. When \<open>e\<close> is one of the exceptions the handlers catch, the
  task ends as a coroutine that returned (\<open>Done None\<close>): the exception does not leave
  it, and one record is logged: the cancellation record for \<open>CancelledError\<close>, the error
  with the sender's phone number and the message for an \<open>Exception\<close>. An exception
  that is not an \<open>Exception\<close> is not caught: the task ends with it and nothing is
  logged. In every case the buffers are untouched, so the text already flushed is not
  put back; no callback is called again, no task is created and no other task changes;
  and whatever turn the finished task is given later does nothing.
\<close>

theorem callback_failure_contained:
  assumes "tid < length (tasks w)" and "phase (tasks w ! tid) = In_callback"
  shows "(handled e \<longrightarrow>
            phase (tasks (timer_callback_finish w tid (Raises e)) ! tid) = Done None) \<and>
         (e = CancelledError \<longrightarrow>
            log (timer_callback_finish w tid (Raises e)) =
              log w @ [Log_timer_cancelled (task_phone (tasks w ! tid))]) \<and>
         (\<forall>m. e = Exception m \<longrightarrow>
            log (timer_callback_finish w tid (Raises e)) =
              log w @ [Log_callback_error (task_phone (tasks w ! tid)) m]) \<and>
         (\<forall>n. e = Base_exception n \<longrightarrow>
            phase (tasks (timer_callback_finish w tid (Raises e)) ! tid) = Done (Some e) \<and>
            log (timer_callback_finish w tid (Raises e)) = log w) \<and>
         buffers (timer_callback_finish w tid (Raises e)) = buffers w \<and>
         invocations (timer_callback_finish w tid (Raises e)) = invocations w \<and>
         length (tasks (timer_callback_finish w tid (Raises e))) = length (tasks w) \<and>
         (\<forall>i. i \<noteq> tid \<longrightarrow> tasks (timer_callback_finish w tid (Raises e)) ! i = tasks w ! i) \<and>
         timer_step (timer_callback_finish w tid (Raises e)) tid =
           timer_callback_finish w tid (Raises e) \<and>
         timer_callback_resume (timer_callback_finish w tid (Raises e)) tid =
           timer_callback_finish w tid (Raises e) \<and>
         timer_callback_finish (timer_callback_finish w tid (Raises e)) tid outcome =
           timer_callback_finish w tid (Raises e)"
proof -
  let ?w' = "timer_callback_finish w tid (Raises e)"
  note eq = finish_raises [OF assms]
  have ph: "handled e \<longrightarrow> phase (tasks ?w' ! tid) = Done None"
    using assms(1) by (cases e) (simp_all add: eq handled_def)
  have lc: "e = CancelledError \<longrightarrow>
      log ?w' = log w @ [Log_timer_cancelled (task_phone (tasks w ! tid))]"
    by (simp add: eq)
  have le: "\<forall>m. e = Exception m \<longrightarrow>
      log ?w' = log w @ [Log_callback_error (task_phone (tasks w ! tid)) m]"
    by (simp add: eq)
  have lb: "\<forall>n. e = Base_exception n \<longrightarrow>
      phase (tasks ?w' ! tid) = Done (Some e) \<and> log ?w' = log w"
    using assms(1) by (simp add: eq)
  have other: "\<forall>i. i \<noteq> tid \<longrightarrow> tasks ?w' ! i = tasks w ! i"
    by (cases e) (simp_all add: eq)
  have len: "tid < length (tasks ?w')" using assms(1) by simp
  from finish_ends_task [OF assms, of "Raises e"]
  obtain r where r: "phase (tasks ?w' ! tid) = Done r" by blast
  have stay: "timer_step ?w' tid = ?w'" "timer_callback_resume ?w' tid = ?w'"
    "timer_callback_finish ?w' tid outcome = ?w'"
    by (rule done_task_stays [OF len r])+
  show ?thesis
    apply (intro conjI)
              apply (rule ph)
             apply (rule lc)
            apply (rule le)
           apply (rule lb)
          apply simp
         apply simp
        apply simp
       apply (rule other)
      apply (rule stay(1))
     apply (rule stay(2))
    apply (rule stay(3))
    done
qed

text \<open>The same manager once the timer sleeps, and once it has expired.\<close>

lemma world_sleeping:
  "timer_callback_start (add_message (projr (init 3 0)) ''U1'' ''Hi'') 0 =
     \<lparr>debounce_seconds = 3,
      buffers = [''U1'' \<mapsto> \<lparr>phone_number = ''U1'', messages = [''Hi''], timer_task = Some 0,
                            created_at = 0, last_updated = 0\<rparr>],
      tasks = [\<lparr>task_phone = ''U1'', phase = Sleeping 3, must_cancel = False\<rparr>],
      clock = 0, invocations = [],
      log = [Log_initialized 3, Log_created_buffer ''U1'', Log_buffered ''U1'' ''Hi'',
             Log_buffer_count 1, Log_started_timer 3 ''U1'']\<rparr>"
  by (simp add: world_one timer_callback_start_def set_phase_def sleep_delay_def)

lemma world_in_callback:
  "timer_callback_resume
     (timer_callback_start (add_message (projr (init 3 0)) ''U1'' ''Hi'') 0) 0 =
     \<lparr>debounce_seconds = 3,
      buffers = [''U1'' \<mapsto> \<lparr>phone_number = ''U1'', messages = [], timer_task = Some 0,
                            created_at = 0, last_updated = 0\<rparr>],
      tasks = [\<lparr>task_phone = ''U1'', phase = In_callback, must_cancel = False\<rparr>],
      clock = 0, invocations = [(''U1'', ''Hi'')],
      log = [Log_initialized 3, Log_created_buffer ''U1'', Log_buffered ''U1'' ''Hi'',
             Log_buffer_count 1, Log_started_timer 3 ''U1'',
             Log_timer_expired ''U1'' 1 ''Hi'']\<rparr>"
  by (simp add: world_sleeping timer_callback_resume_def Let_def set_phase_def log_append_def
      get_aggregated_text_def buffer_clear_def)

text \<open>Against C5 as stated: the timer of \<open>U1\<close> has flushed \<open>Hi\<close> and the callback
  raises \<open>SystemExit\<close>. The task ends with that exception, and the log holds no record
  of it: its last record is still the one of the expiry.\<close>

theorem callback_base_exception_propagates:
  "phase (tasks (timer_callback_finish (timer_callback_resume
       (timer_callback_start (add_message (projr (init 3 0)) ''U1'' ''Hi'') 0) 0) 0
       (Raises (Base_exception ''SystemExit''))) ! 0) =
     Done (Some (Base_exception ''SystemExit'')) \<and>
   log (timer_callback_finish (timer_callback_resume
       (timer_callback_start (add_message (projr (init 3 0)) ''U1'' ''Hi'') 0) 0) 0
       (Raises (Base_exception ''SystemExit''))) =
     [Log_initialized 3, Log_created_buffer ''U1'', Log_buffered ''U1'' ''Hi'',
      Log_buffer_count 1, Log_started_timer 3 ''U1'', Log_timer_expired ''U1'' 1 ''Hi'']"
  unfolding world_in_callback
  by (simp add: timer_callback_finish_def set_phase_def)

text \<open>The timer of \<open>U1\<close> has flushed \<open>Hi\<close> and the callback raises an \<open>Exception\<close>:
  the task is done, the buffer stays empty and the one call stays the only one.\<close>

theorem callback_failure_contained_witness:
  "handled (Exception ''boom'') \<and>
   phase (tasks (timer_callback_resume
       (timer_callback_start (add_message (projr (init 3 0)) ''U1'' ''Hi'') 0) 0) ! 0) = In_callback \<and>
   phase (tasks (timer_callback_finish (timer_callback_resume
       (timer_callback_start (add_message (projr (init 3 0)) ''U1'' ''Hi'') 0) 0) 0
       (Raises (Exception ''boom''))) ! 0) = Done None \<and>
   map_option messages (buffers (timer_callback_finish (timer_callback_resume
       (timer_callback_start (add_message (projr (init 3 0)) ''U1'' ''Hi'') 0) 0) 0
       (Raises (Exception ''boom''))) ''U1'') = Some [] \<and>
   invocations (timer_callback_finish (timer_callback_resume
       (timer_callback_start (add_message (projr (init 3 0)) ''U1'' ''Hi'') 0) 0) 0
       (Raises (Exception ''boom''))) = [(''U1'', ''Hi'')] \<and>
   last (log (timer_callback_finish (timer_callback_resume
       (timer_callback_start (add_message (projr (init 3 0)) ''U1'' ''Hi'') 0) 0) 0
       (Raises (Exception ''boom'')))) = Log_callback_error ''U1'' ''boom''"
proof -
  let ?w = "timer_callback_resume
       (timer_callback_start (add_message (projr (init 3 0)) ''U1'' ''Hi'') 0) 0"
  let ?f = "timer_callback_finish ?w 0 (Raises (Exception ''boom''))"
  have 1: "0 < length (tasks ?w)" and 2: "phase (tasks ?w ! 0) = In_callback"
    and 3: "map_option messages (buffers ?w ''U1'') = Some []"
    and 4: "invocations ?w = [(''U1'', ''Hi'')]"
    and 5: "task_phone (tasks ?w ! 0) = ''U1''"
    by (simp_all add: world_in_callback)
  have h: "handled (Exception ''boom'')" by (simp add: handled_def)
  note c = callback_failure_contained [OF 1 2, of "Exception ''boom''" Returns]
  have p: "phase (tasks ?f ! 0) = Done None"
    by (rule c [THEN conjunct1, THEN mp, OF h])
  have l: "log ?f = log ?w @ [Log_callback_error (task_phone (tasks ?w ! 0)) ''boom'']"
    by (rule c [THEN conjunct2, THEN conjunct2, THEN conjunct1, rule_format, OF refl])
  have b: "buffers ?f = buffers ?w"
    by (rule c [THEN conjunct2, THEN conjunct2, THEN conjunct2, THEN conjunct2,
          THEN conjunct1])
  have i: "invocations ?f = invocations ?w"
    by (rule c [THEN conjunct2, THEN conjunct2, THEN conjunct2, THEN conjunct2,
          THEN conjunct2, THEN conjunct1])
  from h 2 p l b i 3 4 5 show ?thesis by simp
qed

text \<open>
  C3 (expiry protocol), as the code has it. When a timer that was not cancelled expires
  and finds the sender's buffer, the buffer's fragments are emptied and every other field
  of the buffer, \<open>timer_task\<close> included, is left as it was; the callback is called with
  the joined text and the task awaits it. A message of the same sender arriving while
  the callback runs becomes the only fragment of the buffer and gets a new task as its
  timer; it does not call the callback, and when that new timer expires the callback is
  called with this message alone.
\<close>

theorem flush_clears_fragments_only:
  assumes "tid < length (tasks w)" and "phase (tasks w ! tid) = Sleeping t"
    and "\<not> must_cancel (tasks w ! tid)" and "task_phone (tasks w ! tid) = phone"
    and "buffers w phone = Some b"
  shows "buffers (timer_callback_resume w tid) phone = Some (b\<lparr>messages := []\<rparr>) \<and>
         invocations (timer_callback_resume w tid) =
           invocations w @ [(phone, str_join '' '' (messages b))] \<and>
         phase (tasks (timer_callback_resume w tid) ! tid) = In_callback \<and>
         buffers (add_message (timer_callback_resume w tid) phone m) phone =
           Some (b\<lparr>messages := [m], last_updated := clock w,
                   timer_task := Some (length (tasks w))\<rparr>) \<and>
         tasks (add_message (timer_callback_resume w tid) phone m) ! length (tasks w) =
           \<lparr>task_phone = phone, phase = Created, must_cancel = False\<rparr> \<and>
         invocations (add_message (timer_callback_resume w tid) phone m) =
           invocations w @ [(phone, str_join '' '' (messages b))] \<and>
         invocations (timer_callback_resume (timer_callback_start
             (add_message (timer_callback_resume w tid) phone m) (length (tasks w)))
             (length (tasks w))) =
           invocations w @ [(phone, str_join '' '' (messages b)), (phone, m)]"
proof -
  let ?w1 = "timer_callback_resume w tid"
  let ?n = "length (tasks w)"
  let ?w2 = "add_message ?w1 phone m"
  let ?w3 = "timer_callback_start ?w2 ?n"
  have eq: "?w1 =
     w\<lparr>buffers := (buffers w)(phone \<mapsto> b\<lparr>messages := []\<rparr>),
       tasks := (tasks w)[tid := (tasks w ! tid)\<lparr>phase := In_callback\<rparr>],
       invocations := invocations w @ [(phone, str_join '' '' (messages b))],
       log := log w @ [Log_timer_expired phone (length (messages b))
                         (str_join '' '' (messages b))]\<rparr>"
    using resume_flush [OF assms(1-3)] assms(4,5) by simp
  have b1: "buffers ?w1 phone = Some (b\<lparr>messages := []\<rparr>)" by (simp add: eq)
  have i1: "invocations ?w1 = invocations w @ [(phone, str_join '' '' (messages b))]"
    by (simp add: eq)
  have p1: "phase (tasks ?w1 ! tid) = In_callback" using assms(1) by (simp add: eq)
  have b2: "buffers ?w2 phone =
      Some (b\<lparr>messages := [m], last_updated := clock w, timer_task := Some ?n\<rparr>)"
    by (simp add: add_message_buffers b1)
  have t2: "tasks ?w2 ! ?n = \<lparr>task_phone = phone, phase = Created, must_cancel = False\<rparr>"
    by (simp add: add_message_tasks nth_append)
  have l2: "?n < length (tasks ?w2)" by (simp add: add_message_tasks)
  have t3: "tasks ?w3 ! ?n =
      \<lparr>task_phone = phone, phase = Sleeping (clock ?w2 + sleep_delay (debounce_seconds ?w2)),
       must_cancel = False\<rparr>"
    using l2 t2 by (simp add: timer_callback_start_def)
  have l3: "?n < length (tasks ?w3)" using l2 by simp
  have b3: "buffers ?w3 (task_phone (tasks ?w3 ! ?n)) =
      Some (b\<lparr>messages := [m], last_updated := clock w, timer_task := Some ?n\<rparr>)"
    by (simp add: t3 b2)
  have "invocations (timer_callback_resume ?w3 ?n) =
      invocations ?w3 @ [(phone, str_join '' '' [m])]"
    by (subst resume_flush [OF l3 _ _ b3]) (simp_all add: t3)
  then have i4: "invocations (timer_callback_resume ?w3 ?n) =
      invocations w @ [(phone, str_join '' '' (messages b)), (phone, m)]"
    by (simp add: i1)
  from b1 i1 p1 b2 t2 i4 show ?thesis by simp
qed

text \<open>Against C3 as stated: when the callback has been called with \<open>Hi\<close>, the fragments
  are empty but \<open>timer_task\<close> still refers to task 0, the one that expired.\<close>

theorem flush_keeps_timer_reference:
  "invocations (timer_callback_resume
      (timer_callback_start (add_message (projr (init 3 0)) ''U1'' ''Hi'') 0) 0) =
     [(''U1'', ''Hi'')] \<and>
   map_option messages (buffers (timer_callback_resume
      (timer_callback_start (add_message (projr (init 3 0)) ''U1'' ''Hi'') 0) 0) ''U1'') =
     Some [] \<and>
   map_option timer_task (buffers (timer_callback_resume
      (timer_callback_start (add_message (projr (init 3 0)) ''U1'' ''Hi'') 0) 0) ''U1'') =
     Some (Some 0)"
  by (simp add: world_in_callback)

text \<open>The timer of \<open>U1\<close> expires with \<open>Hi\<close> buffered, and \<open>again\<close> arrives
  while the callback runs.\<close>

theorem flush_clears_fragments_only_witness:
  "phase (tasks (timer_callback_start (add_message (projr (init 3 0)) ''U1'' ''Hi'') 0) ! 0) =
     Sleeping 3 \<and>
   map_option messages (buffers (timer_callback_start
      (add_message (projr (init 3 0)) ''U1'' ''Hi'') 0) ''U1'') = Some [''Hi''] \<and>
   map_option messages (buffers (add_message (timer_callback_resume
      (timer_callback_start (add_message (projr (init 3 0)) ''U1'' ''Hi'') 0) 0)
      ''U1'' ''again'') ''U1'') = Some [''again''] \<and>
   invocations (timer_callback_resume (timer_callback_start
      (add_message (timer_callback_resume
         (timer_callback_start (add_message (projr (init 3 0)) ''U1'' ''Hi'') 0) 0)
         ''U1'' ''again'') 1) 1) =
     [(''U1'', ''Hi''), (''U1'', ''again'')]"
proof -
  let ?w = "timer_callback_start (add_message (projr (init 3 0)) ''U1'' ''Hi'') 0"
  let ?b = "\<lparr>phone_number = ''U1'', messages = [''Hi''], timer_task = Some 0,
            created_at = 0, last_updated = 0 :: rat\<rparr>"
  have 1: "0 < length (tasks ?w)" and 2: "phase (tasks ?w ! 0) = Sleeping 3"
    and 3: "\<not> must_cancel (tasks ?w ! 0)" and 4: "task_phone (tasks ?w ! 0) = ''U1''"
    and 5: "buffers ?w ''U1'' = Some ?b"
    and 6: "length (tasks ?w) = 1" and 7: "invocations ?w = []"
    by (simp_all add: world_sleeping)
  from flush_clears_fragments_only [OF 1 2 3 4 5, of "''again''"] 2 5 6 7
  show ?thesis by simp
qed


subsection \<open>The keys of the dictionary\<close>

lemma add_message_dom: "dom (buffers (add_message w phone m)) = insert phone (dom (buffers w))"
  by (simp add: add_message_buffers)

lemma resume_dom: "dom (buffers (timer_callback_resume w tid)) = dom (buffers w)"
  by (auto simp: timer_callback_resume_def Let_def split: option.splits if_splits)

lemma get_buffer_status_snd [simp]: "snd (get_buffer_status w phone) = w"
  by (simp add: get_buffer_status_def split: option.splits)

lemma step_dom: "(\<forall>p. e \<noteq> Clear p) \<Longrightarrow> dom (buffers w) \<subseteq> dom (buffers (step w e))"
  by (cases e) (auto simp: add_message_dom resume_dom)

lemma run_dom: "(\<forall>p. Clear p \<notin> set es) \<Longrightarrow> dom (buffers w) \<subseteq> dom (buffers (run w es))"
proof (induction es arbitrary: w)
  case Nil
  then show ?case by (simp add: run_def)
next
  case (Cons e es)
  have "dom (buffers w) \<subseteq> dom (buffers (step w e))"
    using Cons.prems by (intro step_dom) auto
  moreover have "dom (buffers (step w e)) \<subseteq> dom (buffers (run (step w e) es))"
    using Cons.prems by (intro Cons.IH) auto
  ultimately show ?case by (simp add: run_def)
qed

lemma add_message_nonempty:
  "fragments_nonempty w \<Longrightarrow> fragments_nonempty (add_message w phone m)"
  by (simp add: fragments_nonempty_def add_message_buffers)

lemma clear_buffer_nonempty:
  "fragments_nonempty w \<Longrightarrow> fragments_nonempty (clear_buffer w phone)"
  by (simp add: fragments_nonempty_def clear_buffer_buffers)

text \<open>
  C9 (buffer invariants), as the code has it. \<open>add_message\<close> adds the sender's key and
  no other, so a sender never has two buffers, and the sender's buffer then ends with
  the new fragment: a buffer is created together with its first fragment. That no
  tracked buffer is empty is preserved by \<open>add_message\<close>, \<open>get_buffer_status\<close>,
  \<open>clear_buffer\<close> and the first and last pieces of the timer task. The flush does not
  preserve it: it keeps the buffer and empties its fragments.
\<close>

theorem buffer_created_with_first_fragment:
  "dom (buffers (add_message w phone m)) = insert phone (dom (buffers w)) \<and>
   (\<exists>b. buffers (add_message w phone m) phone = Some b \<and>
        messages b = (case buffers w phone of None \<Rightarrow> [] | Some b0 \<Rightarrow> messages b0) @ [m]) \<and>
   (fragments_nonempty w \<longrightarrow>
      fragments_nonempty (add_message w phone m) \<and>
      fragments_nonempty (snd (get_buffer_status w phone)) \<and>
      fragments_nonempty (clear_buffer w phone) \<and>
      fragments_nonempty (timer_callback_start w tid) \<and>
      fragments_nonempty (timer_callback_finish w tid outcome)) \<and>
   (\<forall>t b. tid < length (tasks w) \<and> phase (tasks w ! tid) = Sleeping t \<and>
          \<not> must_cancel (tasks w ! tid) \<and> buffers w (task_phone (tasks w ! tid)) = Some b \<longrightarrow>
          buffers (timer_callback_resume w tid) (task_phone (tasks w ! tid)) =
            Some (b\<lparr>messages := []\<rparr>))"
proof (intro conjI allI impI)
  show "dom (buffers (add_message w phone m)) = insert phone (dom (buffers w))"
    by (rule add_message_dom)
  show "\<exists>b. buffers (add_message w phone m) phone = Some b \<and>
        messages b = (case buffers w phone of None \<Rightarrow> [] | Some b0 \<Rightarrow> messages b0) @ [m]"
    by (simp add: add_message_buffers new_buffer_def split: option.splits)
next
  assume n: "fragments_nonempty w"
  then show "fragments_nonempty (add_message w phone m)" by (rule add_message_nonempty)
  from n show "fragments_nonempty (snd (get_buffer_status w phone))" by simp
  from n show "fragments_nonempty (clear_buffer w phone)" by (rule clear_buffer_nonempty)
  from n show "fragments_nonempty (timer_callback_start w tid)"
    by (simp add: fragments_nonempty_def)
  from n show "fragments_nonempty (timer_callback_finish w tid outcome)"
    by (simp add: fragments_nonempty_def)
next
  fix t b
  assume "tid < length (tasks w) \<and> phase (tasks w ! tid) = Sleeping t \<and>
          \<not> must_cancel (tasks w ! tid) \<and> buffers w (task_phone (tasks w ! tid)) = Some b"
  then show "buffers (timer_callback_resume w tid) (task_phone (tasks w ! tid)) =
            Some (b\<lparr>messages := []\<rparr>)"
    by (simp add: resume_flush)
qed

text \<open>Against C9 as stated: before the timer of \<open>U1\<close> expires no buffer is empty;
  after the flush the buffer of \<open>U1\<close> exists and is empty.\<close>

theorem flush_leaves_empty_buffer:
  "fragments_nonempty (timer_callback_start (add_message (projr (init 3 0)) ''U1'' ''Hi'') 0) \<and>
   \<not> fragments_nonempty (timer_callback_resume
        (timer_callback_start (add_message (projr (init 3 0)) ''U1'' ''Hi'') 0) 0)"
proof
  show "fragments_nonempty (timer_callback_start (add_message (projr (init 3 0)) ''U1'' ''Hi'') 0)"
    by (auto simp: world_sleeping fragments_nonempty_def)
  have "\<exists>b. buffers (timer_callback_resume
        (timer_callback_start (add_message (projr (init 3 0)) ''U1'' ''Hi'') 0) 0) ''U1'' = Some b \<and>
      messages b = []"
    by (simp add: world_in_callback)
  then show "\<not> fragments_nonempty (timer_callback_resume
        (timer_callback_start (add_message (projr (init 3 0)) ''U1'' ''Hi'') 0) 0)"
    unfolding fragments_nonempty_def by blast
qed

text \<open>With the first message of \<open>U1\<close> buffered: a message of \<open>U2\<close>, a clear
  and the flush.\<close>

theorem buffer_created_with_first_fragment_witness:
  "fragments_nonempty (timer_callback_start (add_message (projr (init 3 0)) ''U1'' ''Hi'') 0) \<and>
   fragments_nonempty (add_message
      (timer_callback_start (add_message (projr (init 3 0)) ''U1'' ''Hi'') 0) ''U2'' ''Yo'') \<and>
   fragments_nonempty (clear_buffer
      (timer_callback_start (add_message (projr (init 3 0)) ''U1'' ''Hi'') 0) ''U1'') \<and>
   map_option messages (buffers (timer_callback_resume
      (timer_callback_start (add_message (projr (init 3 0)) ''U1'' ''Hi'') 0) 0) ''U1'') = Some []"
proof -
  let ?w = "timer_callback_start (add_message (projr (init 3 0)) ''U1'' ''Hi'') 0"
  let ?b = "\<lparr>phone_number = ''U1'', messages = [''Hi''], timer_task = Some 0,
            created_at = 0, last_updated = 0 :: rat\<rparr>"
  have n: "fragments_nonempty ?w"
    by (auto simp: world_sleeping fragments_nonempty_def)
  have h: "0 < length (tasks ?w) \<and> phase (tasks ?w ! 0) = Sleeping 3 \<and>
          \<not> must_cancel (tasks ?w ! 0) \<and> buffers ?w (task_phone (tasks ?w ! 0)) = Some ?b"
    and p: "task_phone (tasks ?w ! 0) = ''U1''"
    by (simp_all add: world_sleeping)
  note inv = buffer_created_with_first_fragment [THEN conjunct2, THEN conjunct2, THEN conjunct1,
      rule_format]
  have 1: "fragments_nonempty (add_message ?w ''U2'' ''Yo'')"
    by (rule inv [of ?w "''U2''" "''Yo''" 0 Returns, OF n, THEN conjunct1])
  have 2: "fragments_nonempty (clear_buffer ?w ''U1'')"
    by (rule inv [of ?w "''U1''" "''Yo''" 0 Returns, OF n, THEN conjunct2, THEN conjunct2,
          THEN conjunct1])
  have 3: "buffers (timer_callback_resume ?w 0) (task_phone (tasks ?w ! 0)) =
      Some (?b\<lparr>messages := []\<rparr>)"
    by (rule buffer_created_with_first_fragment [of ?w "''U1''" "''Yo''" 0 Returns,
          THEN conjunct2, THEN conjunct2, THEN conjunct2, rule_format, OF h])
  from n 1 2 3 p show ?thesis by simp
qed

text \<open>
  C10 (entries stay after a flush). \<open>add_message\<close> adds a key; the three pieces of the
  timer task keep the keys as they are; \<open>clear_buffer\<close> removes the sender's key. So
  over any sequence of events without a clear the keys only grow. After a flush and the
  end of the callback, \<open>get_buffer_status\<close> finds the sender, with no fragment.
\<close>

theorem entries_retained_after_flush:
  "dom (buffers (add_message w phone m)) = insert phone (dom (buffers w)) \<and>
   dom (buffers (timer_callback_start w tid)) = dom (buffers w) \<and>
   dom (buffers (timer_callback_resume w tid)) = dom (buffers w) \<and>
   dom (buffers (timer_callback_finish w tid outcome)) = dom (buffers w) \<and>
   dom (buffers (clear_buffer w phone)) = dom (buffers w) - {phone} \<and>
   ((\<forall>p. Clear p \<notin> set es) \<longrightarrow> dom (buffers w) \<subseteq> dom (buffers (run w es))) \<and>
   (\<forall>t b. tid < length (tasks w) \<and> phase (tasks w ! tid) = Sleeping t \<and>
          \<not> must_cancel (tasks w ! tid) \<and> buffers w (task_phone (tasks w ! tid)) = Some b \<longrightarrow>
      (\<exists>st. fst (get_buffer_status
                (timer_callback_finish (timer_callback_resume w tid) tid outcome)
                (task_phone (tasks w ! tid))) = Some st \<and>
            message_count st = 0 \<and> status_messages st = []))"
proof (intro conjI allI impI)
  show "dom (buffers (add_message w phone m)) = insert phone (dom (buffers w))"
    by (rule add_message_dom)
  show "dom (buffers (timer_callback_start w tid)) = dom (buffers w)" by simp
  show "dom (buffers (timer_callback_resume w tid)) = dom (buffers w)" by (rule resume_dom)
  show "dom (buffers (timer_callback_finish w tid outcome)) = dom (buffers w)" by simp
  show "dom (buffers (clear_buffer w phone)) = dom (buffers w) - {phone}"
    by (simp add: clear_buffer_buffers)
next
  assume "\<forall>p. Clear p \<notin> set es"
  then show "dom (buffers w) \<subseteq> dom (buffers (run w es))" by (rule run_dom)
next
  fix t b
  assume "tid < length (tasks w) \<and> phase (tasks w ! tid) = Sleeping t \<and>
          \<not> must_cancel (tasks w ! tid) \<and> buffers w (task_phone (tasks w ! tid)) = Some b"
  then have "buffers (timer_callback_finish (timer_callback_resume w tid) tid outcome)
               (task_phone (tasks w ! tid)) = Some (b\<lparr>messages := []\<rparr>)"
    by (simp add: resume_flush)
  then show "\<exists>st. fst (get_buffer_status
                (timer_callback_finish (timer_callback_resume w tid) tid outcome)
                (task_phone (tasks w ! tid))) = Some st \<and>
            message_count st = 0 \<and> status_messages st = []"
    by (simp add: get_buffer_status_def)
qed

text \<open>The status of \<open>U1\<close> after its flush, and the keys over a sequence of events
  without a clear.\<close>

theorem entries_retained_after_flush_witness:
  "map_option message_count (fst (get_buffer_status
      (timer_callback_finish (timer_callback_resume
         (timer_callback_start (add_message (projr (init 3 0)) ''U1'' ''Hi'') 0) 0) 0 Returns)
      ''U1'')) = Some 0 \<and>
   dom (buffers (projr (init 3 0))) \<subseteq>
     dom (buffers (run (projr (init 3 0))
        [Add ''U1'' ''Hi'', Start 0, Wake 0, Finish 0 Returns, Add ''U2'' ''Yo'']))"
proof -
  let ?w = "timer_callback_start (add_message (projr (init 3 0)) ''U1'' ''Hi'') 0"
  let ?b = "\<lparr>phone_number = ''U1'', messages = [''Hi''], timer_task = Some 0,
            created_at = 0, last_updated = 0 :: rat\<rparr>"
  let ?es = "[Add ''U1'' ''Hi'', Start 0, Wake 0, Finish 0 Returns, Add ''U2'' ''Yo'']"
  have h: "0 < length (tasks ?w) \<and> phase (tasks ?w ! 0) = Sleeping 3 \<and>
          \<not> must_cancel (tasks ?w ! 0) \<and> buffers ?w (task_phone (tasks ?w ! 0)) = Some ?b"
    and p: "task_phone (tasks ?w ! 0) = ''U1''"
    by (simp_all add: world_sleeping)
  have c: "\<forall>p. Clear p \<notin> set ?es" by simp
  have "\<exists>st. fst (get_buffer_status
                (timer_callback_finish (timer_callback_resume ?w 0) 0 Returns)
                (task_phone (tasks ?w ! 0))) = Some st \<and>
            message_count st = 0 \<and> status_messages st = []"
    by (rule entries_retained_after_flush [of ?w "''U1''" "''Hi''" 0 Returns "[]",
          THEN conjunct2, THEN conjunct2, THEN conjunct2, THEN conjunct2, THEN conjunct2,
          THEN conjunct2, rule_format, OF h])
  then have 1: "map_option message_count (fst (get_buffer_status
      (timer_callback_finish (timer_callback_resume ?w 0) 0 Returns) ''U1'')) = Some 0"
    by (auto simp: p)
  have 2: "dom (buffers (projr (init 3 0))) \<subseteq> dom (buffers (run (projr (init 3 0)) ?es))"
    by (rule entries_retained_after_flush [of "projr (init 3 0)" "''U1''" "''Hi''" 0 Returns ?es,
          THEN conjunct2, THEN conjunct2, THEN conjunct2, THEN conjunct2, THEN conjunct2,
          THEN conjunct1, THEN mp, OF c])
  from 1 2 show ?thesis by simp
qed


subsection \<open>What each piece does to the tasks\<close>

lemma task_cancel_task_phone:
  "i < length (tasks w) \<Longrightarrow>
   task_phone (tasks (task_cancel w tid) ! i) = task_phone (tasks w ! i) \<and>
   phase (tasks (task_cancel w tid) ! i) = phase (tasks w ! i) \<and>
   (must_cancel (tasks w ! i) \<longrightarrow> must_cancel (tasks (task_cancel w tid) ! i))"
  by (simp add: task_cancel_nth)

lemma cancel_old_nth:
  "i < length (tasks w) \<Longrightarrow>
   task_phone (tasks (cancel_old w phone) ! i) = task_phone (tasks w ! i) \<and>
   phase (tasks (cancel_old w phone) ! i) = phase (tasks w ! i) \<and>
   (must_cancel (tasks w ! i) \<longrightarrow> must_cancel (tasks (cancel_old w phone) ! i))"
  by (simp add: cancel_old_def task_cancel_task_phone split: option.splits)

lemma add_message_old_task:
  "i < length (tasks w) \<Longrightarrow>
   tasks (add_message w phone m) ! i = tasks (cancel_old w phone) ! i"
  by (simp add: add_message_tasks nth_append)

lemma add_message_length [simp]:
  "length (tasks (add_message w phone m)) = Suc (length (tasks w))"
  by (simp add: add_message_tasks)

lemma timer_callback_start_nth:
  "i < length (tasks w) \<Longrightarrow>
   task_phone (tasks (timer_callback_start w tid) ! i) = task_phone (tasks w ! i) \<and>
   must_cancel (tasks (timer_callback_start w tid) ! i) = must_cancel (tasks w ! i) \<and>
   (i \<noteq> tid \<longrightarrow> tasks (timer_callback_start w tid) ! i = tasks w ! i)"
  by (simp add: timer_callback_start_def nth_list_update)

lemma timer_callback_resume_nth:
  "i < length (tasks w) \<Longrightarrow>
   task_phone (tasks (timer_callback_resume w tid) ! i) = task_phone (tasks w ! i) \<and>
   must_cancel (tasks (timer_callback_resume w tid) ! i) = must_cancel (tasks w ! i) \<and>
   (i \<noteq> tid \<longrightarrow> tasks (timer_callback_resume w tid) ! i = tasks w ! i)"
  by (simp add: timer_callback_resume_def Let_def nth_list_update split: option.splits)

lemma timer_callback_finish_nth:
  "i < length (tasks w) \<Longrightarrow>
   task_phone (tasks (timer_callback_finish w tid outcome) ! i) = task_phone (tasks w ! i) \<and>
   must_cancel (tasks (timer_callback_finish w tid outcome) ! i) = must_cancel (tasks w ! i) \<and>
   (i \<noteq> tid \<longrightarrow> tasks (timer_callback_finish w tid outcome) ! i = tasks w ! i)"
  by (simp add: timer_callback_finish_def Let_def nth_list_update
      split: callback_outcome.splits py_exception.splits)

lemma clear_buffer_nth:
  "i < length (tasks w) \<Longrightarrow>
   task_phone (tasks (clear_buffer w phone) ! i) = task_phone (tasks w ! i) \<and>
   phase (tasks (clear_buffer w phone) ! i) = phase (tasks w ! i) \<and>
   (must_cancel (tasks w ! i) \<longrightarrow> must_cancel (tasks (clear_buffer w phone) ! i))"
  by (simp add: clear_buffer_def Let_def task_cancel_task_phone split: option.splits)

lemma timer_callback_resume_buffers:
  "buffers (timer_callback_resume w tid) p = Some b' \<Longrightarrow>
   \<exists>b. buffers w p = Some b \<and> phone_number b' = phone_number b \<and> timer_task b' = timer_task b"
  by (auto simp: timer_callback_resume_def Let_def buffer_clear_def
      split: option.splits if_splits)

subsection \<open>Well-formed states\<close>

lemma well_formed_alt:
  "well_formed w \<longleftrightarrow>
     (\<forall>p b. buffers w p = Some b \<longrightarrow>
        phone_number b = p \<and>
        (\<exists>tid. timer_task b = Some tid \<and> tid < length (tasks w) \<and>
               task_phone (tasks w ! tid) = p))"
  unfolding well_formed_def
  by (rule iff_allI, rule iff_allI) (simp split: option.splits)

lemma well_formed_init: "well_formed (projr (init d now))"
  by (simp add: well_formed_def init_def)

lemma well_formed_add_message:
  assumes "well_formed w"
  shows "well_formed (add_message w phone m)"
  unfolding well_formed_alt
proof (intro allI impI)
  fix p b assume b: "buffers (add_message w phone m) p = Some b"
  show "phone_number b = p \<and>
        (\<exists>tid. timer_task b = Some tid \<and> tid < length (tasks (add_message w phone m)) \<and>
               task_phone (tasks (add_message w phone m) ! tid) = p)"
  proof (cases "p = phone")
    case True
    let ?B = "case buffers w phone of None \<Rightarrow> new_buffer phone (clock w) | Some b0 \<Rightarrow> b0"
    have pn: "phone_number ?B = phone"
    proof (cases "buffers w phone")
      case None
      then show ?thesis by (simp add: new_buffer_def)
    next
      case (Some b0)
      with assms have "phone_number b0 = phone" unfolding well_formed_alt by blast
      with Some show ?thesis by simp
    qed
    from b True have "b = ?B\<lparr>messages := messages ?B @ [m], last_updated := clock w,
                             timer_task := Some (length (tasks w))\<rparr>"
      by (simp add: add_message_buffers)
    then have "phone_number b = phone" "timer_task b = Some (length (tasks w))"
      using pn by simp_all
    moreover have "task_phone (tasks (add_message w phone m) ! length (tasks w)) = phone"
      by (simp add: add_message_tasks nth_append)
    ultimately show ?thesis using True by simp
  next
    case False
    with b have b0: "buffers w p = Some b" by (simp add: add_message_buffers)
    with assms obtain tid where t: "phone_number b = p" "timer_task b = Some tid"
      "tid < length (tasks w)" "task_phone (tasks w ! tid) = p"
      unfolding well_formed_alt by blast
    then show ?thesis by (simp add: add_message_old_task cancel_old_nth)
  qed
qed

lemma well_formed_frame:
  assumes wf: "well_formed w"
    and bufs: "\<And>p b'. buffers w' p = Some b' \<Longrightarrow>
        \<exists>b. buffers w p = Some b \<and> phone_number b' = phone_number b \<and>
            timer_task b' = timer_task b"
    and len: "length (tasks w) \<le> length (tasks w')"
    and phones: "\<And>i. i < length (tasks w) \<Longrightarrow>
        task_phone (tasks w' ! i) = task_phone (tasks w ! i)"
  shows "well_formed w'"
  unfolding well_formed_alt
proof (intro allI impI)
  fix p b' assume "buffers w' p = Some b'"
  from bufs [OF this] obtain b where b: "buffers w p = Some b"
    "phone_number b' = phone_number b" "timer_task b' = timer_task b"
    by blast
  from wf b(1) obtain k where k: "phone_number b = p" "timer_task b = Some k"
    "k < length (tasks w)" "task_phone (tasks w ! k) = p"
    unfolding well_formed_alt by blast
  have "k < length (tasks w')" using k(3) len by simp
  with b k phones [OF k(3)]
  show "phone_number b' = p \<and>
        (\<exists>k. timer_task b' = Some k \<and> k < length (tasks w') \<and> task_phone (tasks w' ! k) = p)"
    by simp
qed

lemma well_formed_start: "well_formed w \<Longrightarrow> well_formed (timer_callback_start w tid)"
  by (erule well_formed_frame) (simp_all add: timer_callback_start_nth)

lemma well_formed_finish:
  "well_formed w \<Longrightarrow> well_formed (timer_callback_finish w tid outcome)"
  by (erule well_formed_frame) (simp_all add: timer_callback_finish_nth)

lemma well_formed_resume: "well_formed w \<Longrightarrow> well_formed (timer_callback_resume w tid)"
  by (erule well_formed_frame)
    (simp_all add: timer_callback_resume_nth timer_callback_resume_buffers)

lemma well_formed_clear: "well_formed w \<Longrightarrow> well_formed (clear_buffer w phone)"
  by (erule well_formed_frame)
    (simp_all add: clear_buffer_nth clear_buffer_buffers split: if_splits)

lemma well_formed_tick: "well_formed w \<Longrightarrow> well_formed (w\<lparr>clock := c\<rparr>)"
  by (erule well_formed_frame) simp_all

lemma well_formed_step: "well_formed w \<Longrightarrow> well_formed (step w e)"
  by (cases e)
    (simp_all add: well_formed_add_message well_formed_start well_formed_resume
      well_formed_finish well_formed_clear well_formed_tick)

lemma well_formed_run: "well_formed w \<Longrightarrow> well_formed (run w es)"
  unfolding run_def by (induction es arbitrary: w) (simp_all add: well_formed_step)


subsection \<open>The status of a buffer\<close>

lemma get_buffer_status_present:
  "buffers w phone = Some b \<Longrightarrow>
   fst (get_buffer_status w phone) =
     Some \<lparr>status_phone_number = phone, message_count = length (messages b),
           status_messages = messages b, status_created_at = created_at b,
           status_last_updated = last_updated b,
           timer_active = map_option (\<lambda>tid. \<not> task_done w tid) (timer_task b)\<rparr>"
  by (simp add: get_buffer_status_def split: option.splits)

lemma get_buffer_status_none:
  "fst (get_buffer_status w phone) = None \<longleftrightarrow> buffers w phone = None"
  by (simp add: get_buffer_status_def split: option.splits)

lemma run_example:
  "run (projr (init 3 0)) [Add ''U1'' ''Hi'', Start 0] =
     timer_callback_start (add_message (projr (init 3 0)) ''U1'' ''Hi'') 0"
  by (simp add: run_def)

text \<open>
  C8 (getStatus). \<open>get_buffer_status\<close> returns \<open>None\<close> exactly when the sender has no
  buffer, and leaves the state as it was. For a tracked sender it returns the phone
  number, the number of fragments, the fragments and the two timestamps of the buffer,
  and \<open>timer_active\<close>: whether the buffer's task is not done. In every state a manager
  reaches from its construction by whatever events, \<open>timer_active\<close> is a boolean and
  not \<open>None\<close>, since \<open>add_message\<close> gives every buffer a task.
\<close>

theorem get_buffer_status_contract:
  "(fst (get_buffer_status w phone) = None \<longleftrightarrow> buffers w phone = None) \<and>
   snd (get_buffer_status w phone) = w \<and>
   (\<forall>b. buffers w phone = Some b \<longrightarrow>
      fst (get_buffer_status w phone) =
        Some \<lparr>status_phone_number = phone, message_count = length (messages b),
              status_messages = messages b, status_created_at = created_at b,
              status_last_updated = last_updated b,
              timer_active = map_option (\<lambda>tid. \<not> task_done w tid) (timer_task b)\<rparr>) \<and>
   (\<forall>d now es st. w = run (projr (init d now)) es \<and>
      fst (get_buffer_status w phone) = Some st \<longrightarrow>
      (\<exists>active. timer_active st = Some active))"
proof (intro conjI allI impI)
  show "fst (get_buffer_status w phone) = None \<longleftrightarrow> buffers w phone = None"
    by (rule get_buffer_status_none)
  show "snd (get_buffer_status w phone) = w" by simp
next
  fix b assume "buffers w phone = Some b"
  then show "fst (get_buffer_status w phone) =
        Some \<lparr>status_phone_number = phone, message_count = length (messages b),
              status_messages = messages b, status_created_at = created_at b,
              status_last_updated = last_updated b,
              timer_active = map_option (\<lambda>tid. \<not> task_done w tid) (timer_task b)\<rparr>"
    by (rule get_buffer_status_present)
next
  fix d now es st
  assume a: "w = run (projr (init d now)) es \<and> fst (get_buffer_status w phone) = Some st"
  then have wf: "well_formed w" by (simp add: well_formed_run well_formed_init)
  from a obtain b where b: "buffers w phone = Some b"
    by (cases "buffers w phone") (simp_all add: get_buffer_status_def)
  with wf obtain tid where "timer_task b = Some tid" unfolding well_formed_alt by blast
  with a b show "\<exists>active. timer_active st = Some active"
    by (auto simp: get_buffer_status_present)
qed

text \<open>The status of \<open>U1\<close> while its timer sleeps, and of the untracked
  \<open>U2\<close>.\<close>

theorem get_buffer_status_contract_witness:
  "fst (get_buffer_status (run (projr (init 3 0)) [Add ''U1'' ''Hi'', Start 0]) ''U1'') =
     Some \<lparr>status_phone_number = ''U1'', message_count = 1, status_messages = [''Hi''],
           status_created_at = 0, status_last_updated = 0, timer_active = Some True\<rparr> \<and>
   fst (get_buffer_status (run (projr (init 3 0)) [Add ''U1'' ''Hi'', Start 0]) ''U2'') = None \<and>
   snd (get_buffer_status (run (projr (init 3 0)) [Add ''U1'' ''Hi'', Start 0]) ''U1'') =
     run (projr (init 3 0)) [Add ''U1'' ''Hi'', Start 0]"
proof -
  let ?w = "run (projr (init 3 0)) [Add ''U1'' ''Hi'', Start 0]"
  let ?b = "\<lparr>phone_number = ''U1'', messages = [''Hi''], timer_task = Some 0,
            created_at = 0, last_updated = 0 :: rat\<rparr>"
  note c = get_buffer_status_contract [of ?w]
  have b: "buffers ?w ''U1'' = Some ?b" and n: "buffers ?w ''U2'' = None"
    and t: "\<not> task_done ?w 0"
    by (simp_all add: run_example world_sleeping task_done_def)
  have 1: "fst (get_buffer_status ?w ''U1'') =
      Some \<lparr>status_phone_number = ''U1'', message_count = length (messages ?b),
            status_messages = messages ?b, status_created_at = created_at ?b,
            status_last_updated = last_updated ?b,
            timer_active = map_option (\<lambda>tid. \<not> task_done ?w tid) (timer_task ?b)\<rparr>"
    by (rule c [of "''U1''", THEN conjunct2, THEN conjunct2, THEN conjunct1, rule_format, OF b])
  have 2: "fst (get_buffer_status ?w ''U2'') = None"
    using c [of "''U2''", THEN conjunct1] n by (rule iffD2)
  have 3: "snd (get_buffer_status ?w ''U1'') = ?w"
    by (rule c [of "''U1''", THEN conjunct2, THEN conjunct1])
  from 1 t have "fst (get_buffer_status ?w ''U1'') =
     Some \<lparr>status_phone_number = ''U1'', message_count = 1, status_messages = [''Hi''],
           status_created_at = 0, status_last_updated = 0, timer_active = Some True\<rparr>"
    by simp
  with 2 3 show ?thesis by (intro conjI)
qed

subsection \<open>Two senders\<close>

lemma cancel_old_other:
  assumes "well_formed w" and "i < length (tasks w)" and "task_phone (tasks w ! i) \<noteq> phone"
  shows "tasks (cancel_old w phone) ! i = tasks w ! i"
proof (cases "buffers w phone")
  case None
  then show ?thesis by (simp add: cancel_old_def)
next
  case (Some b)
  with assms(1) obtain old where old: "timer_task b = Some old"
    "task_phone (tasks w ! old) = phone"
    unfolding well_formed_alt by blast
  with assms(3) have "i \<noteq> old" by auto
  with Some old assms(2) show ?thesis by (simp add: cancel_old_def task_cancel_nth)
qed

lemma resume_other_sender:
  assumes "task_phone (tasks w ! tid) \<noteq> p"
  shows "buffers (timer_callback_resume w tid) p = buffers w p"
    and "calls_for p (timer_callback_resume w tid) = calls_for p w"
  using assms
  by (auto simp: timer_callback_resume_def Let_def calls_for_def split: option.splits)

lemma resume_cases:
  "invocations (timer_callback_resume w tid) = invocations w \<or>
   (\<exists>b. buffers w (task_phone (tasks w ! tid)) = Some b \<and>
        invocations (timer_callback_resume w tid) =
          invocations w @ [(task_phone (tasks w ! tid), str_join '' '' (messages b))] \<and>
        buffers (timer_callback_resume w tid) (task_phone (tasks w ! tid)) =
          Some (b\<lparr>messages := []\<rparr>))"
  by (auto simp: timer_callback_resume_def Let_def get_aggregated_text_def buffer_clear_def
      split: option.splits)

lemma added_for_append:
  "added_for phone (es @ es') = added_for phone es @ added_for phone es'"
  by (induction phone es rule: added_for.induct) simp_all

lemma added_for_snoc:
  "added_for phone (es @ [e]) =
     (case e of Add p m \<Rightarrow> if p = phone then added_for phone es @ [m] else added_for phone es
      | _ \<Rightarrow> added_for phone es)"
  by (cases e) (simp_all add: added_for_append)

lemma run_snoc: "run w (es @ [e]) = step (run w es) e"
  by (simp add: run_def)

lemma own_fragments_init: "own_fragments [] (projr (init d now))"
  by (simp add: own_fragments_def init_def)

lemma own_fragments_frame:
  assumes "own_fragments es w"
    and "\<And>p. added_for p es' = added_for p es"
    and "\<And>p b'. buffers w' p = Some b' \<Longrightarrow>
           messages b' = [] \<or> (\<exists>b. buffers w p = Some b \<and> messages b' = messages b)"
    and "\<And>c. c \<in> set (invocations w') \<Longrightarrow> c \<in> set (invocations w) \<or>
           (\<exists>b. buffers w (fst c) = Some b \<and> snd c = str_join '' '' (messages b))"
  shows "own_fragments es' w'"
  unfolding own_fragments_def
proof (intro conjI allI impI)
  fix p b' assume "buffers w' p = Some b'"
  from assms(3) [OF this] show "suffix (messages b') (added_for p es')"
  proof
    assume "messages b' = []"
    then show ?thesis by simp
  next
    assume "\<exists>b. buffers w p = Some b \<and> messages b' = messages b"
    with assms(1,2) show ?thesis unfolding own_fragments_def by auto
  qed
next
  fix p t assume "(p, t) \<in> set (invocations w')"
  from assms(4) [OF this]
  show "\<exists>seg. sublist seg (added_for p es') \<and> t = str_join '' '' seg"
  proof
    assume "(p, t) \<in> set (invocations w)"
    with assms(1,2) show ?thesis unfolding own_fragments_def by auto
  next
    assume "\<exists>b. buffers w (fst (p, t)) = Some b \<and> snd (p, t) = str_join '' '' (messages b)"
    then obtain b where b: "buffers w p = Some b" "t = str_join '' '' (messages b)" by auto
    with assms(1) have "suffix (messages b) (added_for p es)"
      unfolding own_fragments_def by blast
    then have "sublist (messages b) (added_for p es')"
      using assms(2) by (simp add: suffix_imp_sublist)
    with b show ?thesis by blast
  qed
qed

lemma resume_buffer_messages:
  "buffers (timer_callback_resume w tid) p = Some b' \<Longrightarrow>
   messages b' = [] \<or> (\<exists>b. buffers w p = Some b \<and> messages b' = messages b)"
  by (auto simp: timer_callback_resume_def Let_def buffer_clear_def
      split: option.splits if_splits)

lemma resume_call:
  "c \<in> set (invocations (timer_callback_resume w tid)) \<Longrightarrow>
   c \<in> set (invocations w) \<or>
   (\<exists>b. buffers w (fst c) = Some b \<and> snd c = str_join '' '' (messages b))"
  using resume_cases [of w tid] by auto

lemma own_fragments_add:
  assumes "own_fragments es w"
  shows "own_fragments (es @ [Add phone m]) (add_message w phone m)"
  unfolding own_fragments_def
proof (intro conjI allI impI)
  fix p b' assume b': "buffers (add_message w phone m) p = Some b'"
  show "suffix (messages b') (added_for p (es @ [Add phone m]))"
  proof (cases "p = phone")
    case True
    let ?old = "case buffers w phone of None \<Rightarrow> [] | Some b \<Rightarrow> messages b"
    have "suffix ?old (added_for phone es)"
      using assms unfolding own_fragments_def by (auto split: option.splits)
    moreover have "messages b' = ?old @ [m]"
      using b' True by (auto simp: add_message_buffers new_buffer_def split: option.splits)
    ultimately show ?thesis using True by (simp add: added_for_snoc)
  next
    case False
    with b' have "buffers w p = Some b'" by (simp add: add_message_buffers)
    with assms False show ?thesis
      unfolding own_fragments_def by (simp add: added_for_snoc)
  qed
next
  fix p t assume "(p, t) \<in> set (invocations (add_message w phone m))"
  then have "(p, t) \<in> set (invocations w)" by simp
  with assms obtain seg where seg: "sublist seg (added_for p es)" "t = str_join '' '' seg"
    unfolding own_fragments_def by blast
  from seg(1) have "sublist seg (added_for p (es @ [Add phone m]))"
    by (auto simp: added_for_snoc sublist_append)
  with seg(2) show "\<exists>seg. sublist seg (added_for p (es @ [Add phone m])) \<and>
      t = str_join '' '' seg"
    by blast
qed

lemma own_fragments_step:
  assumes "own_fragments es w"
  shows "own_fragments (es @ [e]) (step w e)"
proof (cases e)
  case (Add phone m)
  with assms show ?thesis by (simp add: own_fragments_add)
next
  case (Start tid)
  from assms show ?thesis unfolding Start
    by (rule own_fragments_frame) (simp_all add: added_for_snoc)
next
  case (Wake tid)
  from assms show ?thesis unfolding Wake
    by (rule own_fragments_frame)
      (simp_all add: added_for_snoc resume_buffer_messages resume_call)
next
  case (Finish tid outcome)
  from assms show ?thesis unfolding Finish
    by (rule own_fragments_frame) (simp_all add: added_for_snoc)
next
  case (Status phone)
  from assms show ?thesis unfolding Status
    by (rule own_fragments_frame) (simp_all add: added_for_snoc)
next
  case (Clear phone)
  from assms show ?thesis unfolding Clear
    by (rule own_fragments_frame)
      (simp_all add: added_for_snoc clear_buffer_buffers split: if_splits)
next
  case (Tick t)
  from assms show ?thesis unfolding Tick
    by (rule own_fragments_frame) (simp_all add: added_for_snoc)
qed

lemma own_fragments_run:
  "own_fragments es (run (projr (init d now)) es)"
proof (induction es rule: rev_induct)
  case Nil
  then show ?case by (simp add: run_def own_fragments_init)
next
  case (snoc e es)
  then show ?case by (simp add: run_snoc own_fragments_step)
qed

lemma calls_carry_own_fragments:
  assumes "w = run (projr (init d now)) es" and "(p, t) \<in> set (invocations w)"
  shows "\<exists>seg. sublist seg (added_for p es) \<and> t = str_join '' '' seg"
proof -
  have "\<forall>p t. (p, t) \<in> set (invocations (run (projr (init d now)) es)) \<longrightarrow>
      (\<exists>seg. sublist seg (added_for p es) \<and> t = str_join '' '' seg)"
    using own_fragments_run [of es d now] unfolding own_fragments_def by (rule conjunct2)
  with assms show ?thesis by blast
qed

text \<open>
  C6 (per-sender isolation). For two distinct senders \<open>s1\<close> and \<open>s2\<close>:
  \<open>add_message\<close> for \<open>s1\<close> leaves the buffer of \<open>s2\<close> (fragments, task reference,
  timestamps) and the calls made for \<open>s2\<close> as they were, and in a well-formed state
  it leaves the task of \<open>s2\<close>'s buffer untouched. The expiry of a timer of \<open>s1\<close> leaves
  the buffer of \<open>s2\<close> and the calls made for \<open>s2\<close> as they were; it calls the
  callback either not at all or once, for \<open>s1\<close> and with the joined fragments of
  \<open>s1\<close>'s buffer, which it then empties. And in every state a manager reaches from
  its construction, each call made for a sender carries consecutive texts that were
  added for that very sender, joined by single spaces.
\<close>

theorem per_sender_isolation:
  assumes "s1 \<noteq> s2"
  shows "buffers (add_message w s1 m) s2 = buffers w s2 \<and>
         calls_for s2 (add_message w s1 m) = calls_for s2 w \<and>
         (well_formed w \<longrightarrow>
            (\<forall>b tid. buffers w s2 = Some b \<and> timer_task b = Some tid \<longrightarrow>
               tasks (add_message w s1 m) ! tid = tasks w ! tid)) \<and>
         (\<forall>tid. task_phone (tasks w ! tid) = s1 \<longrightarrow>
            buffers (timer_callback_resume w tid) s2 = buffers w s2 \<and>
            calls_for s2 (timer_callback_resume w tid) = calls_for s2 w \<and>
            (invocations (timer_callback_resume w tid) = invocations w \<or>
             (\<exists>b. buffers w s1 = Some b \<and>
                  invocations (timer_callback_resume w tid) =
                    invocations w @ [(s1, str_join '' '' (messages b))] \<and>
                  buffers (timer_callback_resume w tid) s1 = Some (b\<lparr>messages := []\<rparr>)))) \<and>
         (\<forall>d now es p t. w = run (projr (init d now)) es \<and> (p, t) \<in> set (invocations w) \<longrightarrow>
            (\<exists>seg. sublist seg (added_for p es) \<and> t = str_join '' '' seg))"
proof (intro conjI allI impI)
  show "buffers (add_message w s1 m) s2 = buffers w s2"
    using assms by (simp add: add_message_buffers)
  show "calls_for s2 (add_message w s1 m) = calls_for s2 w" by simp
next
  fix b tid
  assume wf: "well_formed w" and b: "buffers w s2 = Some b \<and> timer_task b = Some tid"
  then have "tid < length (tasks w)" "task_phone (tasks w ! tid) = s2"
    unfolding well_formed_alt by fastforce+
  with wf assms show "tasks (add_message w s1 m) ! tid = tasks w ! tid"
    by (simp add: add_message_old_task cancel_old_other)
next
  fix tid assume t: "task_phone (tasks w ! tid) = s1"
  with assms show "buffers (timer_callback_resume w tid) s2 = buffers w s2"
    and "calls_for s2 (timer_callback_resume w tid) = calls_for s2 w"
    by (simp_all add: resume_other_sender)
  from resume_cases [of w tid] t
  show "invocations (timer_callback_resume w tid) = invocations w \<or>
        (\<exists>b. buffers w s1 = Some b \<and>
             invocations (timer_callback_resume w tid) =
               invocations w @ [(s1, str_join '' '' (messages b))] \<and>
             buffers (timer_callback_resume w tid) s1 = Some (b\<lparr>messages := []\<rparr>))"
    by simp
next
  fix d now es p t
  assume a: "w = run (projr (init d now)) es \<and> (p, t) \<in> set (invocations w)"
  show "\<exists>seg. sublist seg (added_for p es) \<and> t = str_join '' '' seg"
    by (rule calls_carry_own_fragments [OF conjunct1 [OF a] conjunct2 [OF a]])
qed


text \<open>Two senders, each with a sleeping timer.\<close>

lemma world_two_run:
  "run (projr (init 3 0)) [Add ''U1'' ''Hi'', Start 0, Add ''U2'' ''Yo'', Start 1] =
   timer_callback_start (add_message
     (timer_callback_start (add_message (projr (init 3 0)) ''U1'' ''Hi'') 0) ''U2'' ''Yo'') 1"
  by (simp add: run_def)

lemma world_two_add:
  "add_message (timer_callback_start (add_message (projr (init 3 0)) ''U1'' ''Hi'') 0)
     ''U2'' ''Yo'' =
     \<lparr>debounce_seconds = 3,
      buffers = [''U1'' \<mapsto> \<lparr>phone_number = ''U1'', messages = [''Hi''], timer_task = Some 0,
                            created_at = 0, last_updated = 0\<rparr>,
                 ''U2'' \<mapsto> \<lparr>phone_number = ''U2'', messages = [''Yo''], timer_task = Some 1,
                            created_at = 0, last_updated = 0\<rparr>],
      tasks = [\<lparr>task_phone = ''U1'', phase = Sleeping 3, must_cancel = False\<rparr>,
               \<lparr>task_phone = ''U2'', phase = Created, must_cancel = False\<rparr>],
      clock = 0, invocations = [],
      log = [Log_initialized 3, Log_created_buffer ''U1'', Log_buffered ''U1'' ''Hi'',
             Log_buffer_count 1, Log_started_timer 3 ''U1'',
             Log_created_buffer ''U2'', Log_buffered ''U2'' ''Yo'',
             Log_buffer_count 1, Log_started_timer 3 ''U2'']\<rparr>"
  unfolding world_sleeping
  by (simp add: add_message_def Let_def new_buffer_def
      buffer_add_message_def create_task_def log_append_def)

lemma world_two:
  "run (projr (init 3 0)) [Add ''U1'' ''Hi'', Start 0, Add ''U2'' ''Yo'', Start 1] =
     \<lparr>debounce_seconds = 3,
      buffers = [''U1'' \<mapsto> \<lparr>phone_number = ''U1'', messages = [''Hi''], timer_task = Some 0,
                            created_at = 0, last_updated = 0\<rparr>,
                 ''U2'' \<mapsto> \<lparr>phone_number = ''U2'', messages = [''Yo''], timer_task = Some 1,
                            created_at = 0, last_updated = 0\<rparr>],
      tasks = [\<lparr>task_phone = ''U1'', phase = Sleeping 3, must_cancel = False\<rparr>,
               \<lparr>task_phone = ''U2'', phase = Sleeping 3, must_cancel = False\<rparr>],
      clock = 0, invocations = [],
      log = [Log_initialized 3, Log_created_buffer ''U1'', Log_buffered ''U1'' ''Hi'',
             Log_buffer_count 1, Log_started_timer 3 ''U1'',
             Log_created_buffer ''U2'', Log_buffered ''U2'' ''Yo'',
             Log_buffer_count 1, Log_started_timer 3 ''U2'']\<rparr>"
  unfolding world_two_run world_two_add
  by (simp add: timer_callback_start_def set_phase_def sleep_delay_def)

lemma world_two_wake:
  "invocations (run (projr (init 3 0))
      [Add ''U1'' ''Hi'', Start 0, Add ''U2'' ''Yo'', Start 1, Wake 1]) = [(''U2'', ''Yo'')]"
proof -
  have "run (projr (init 3 0)) [Add ''U1'' ''Hi'', Start 0, Add ''U2'' ''Yo'', Start 1, Wake 1] =
      timer_callback_resume
        (run (projr (init 3 0)) [Add ''U1'' ''Hi'', Start 0, Add ''U2'' ''Yo'', Start 1]) 1"
    by (simp add: run_def)
  then show ?thesis
    unfolding world_two
    by (simp add: timer_callback_resume_def Let_def get_aggregated_text_def)
qed

text \<open>\<open>U1\<close> and \<open>U2\<close> each have a message buffered and a timer asleep.\<close>

theorem per_sender_isolation_witness:
  "well_formed (run (projr (init 3 0)) [Add ''U1'' ''Hi'', Start 0, Add ''U2'' ''Yo'', Start 1]) \<and>
   buffers (add_message
      (run (projr (init 3 0)) [Add ''U1'' ''Hi'', Start 0, Add ''U2'' ''Yo'', Start 1])
      ''U1'' ''there'') ''U2'' =
     Some \<lparr>phone_number = ''U2'', messages = [''Yo''], timer_task = Some 1,
           created_at = 0, last_updated = 0\<rparr> \<and>
   tasks (add_message
      (run (projr (init 3 0)) [Add ''U1'' ''Hi'', Start 0, Add ''U2'' ''Yo'', Start 1])
      ''U1'' ''there'') ! 1 =
     \<lparr>task_phone = ''U2'', phase = Sleeping 3, must_cancel = False\<rparr> \<and>
   buffers (timer_callback_resume
      (run (projr (init 3 0)) [Add ''U1'' ''Hi'', Start 0, Add ''U2'' ''Yo'', Start 1]) 0)
      ''U2'' =
     Some \<lparr>phone_number = ''U2'', messages = [''Yo''], timer_task = Some 1,
           created_at = 0, last_updated = 0\<rparr> \<and>
   invocations (timer_callback_resume
      (run (projr (init 3 0)) [Add ''U1'' ''Hi'', Start 0, Add ''U2'' ''Yo'', Start 1]) 0) =
     [(''U1'', ''Hi'')] \<and>
   invocations (run (projr (init 3 0))
      [Add ''U1'' ''Hi'', Start 0, Add ''U2'' ''Yo'', Start 1, Wake 1]) = [(''U2'', ''Yo'')] \<and>
   added_for ''U2'' [Add ''U1'' ''Hi'', Start 0, Add ''U2'' ''Yo'', Start 1, Wake 1] = [''Yo''] \<and>
   (\<exists>seg. sublist seg
      (added_for ''U2'' [Add ''U1'' ''Hi'', Start 0, Add ''U2'' ''Yo'', Start 1, Wake 1]) \<and>
      ''Yo'' = str_join '' '' seg)"
proof -
  let ?w = "run (projr (init 3 0)) [Add ''U1'' ''Hi'', Start 0, Add ''U2'' ''Yo'', Start 1]"
  let ?b2 = "\<lparr>phone_number = ''U2'', messages = [''Yo''], timer_task = Some 1,
            created_at = 0, last_updated = 0 :: rat\<rparr>"
  have ne: "''U1'' \<noteq> ''U2''" by simp
  note iso = per_sender_isolation [OF ne, of ?w "''there''"]
  have wf: "well_formed ?w" by (rule well_formed_run) (rule well_formed_init)
  have b2: "buffers ?w ''U2'' = Some ?b2" and tt: "timer_task ?b2 = Some 1"
    and t1: "tasks ?w ! 1 = \<lparr>task_phone = ''U2'', phase = Sleeping 3, must_cancel = False\<rparr>"
    and t0: "task_phone (tasks ?w ! 0) = ''U1''"
    unfolding world_two by simp_all
  have 1: "buffers (add_message ?w ''U1'' ''there'') ''U2'' = buffers ?w ''U2''"
    by (rule iso [THEN conjunct1])
  have 2: "tasks (add_message ?w ''U1'' ''there'') ! 1 = tasks ?w ! 1"
    by (rule iso [THEN conjunct2, THEN conjunct2, THEN conjunct1, THEN mp, OF wf,
          rule_format, OF conjI, OF b2 tt])
  have 3: "buffers (timer_callback_resume ?w 0) ''U2'' = buffers ?w ''U2''"
    by (rule iso [THEN conjunct2, THEN conjunct2, THEN conjunct2, THEN conjunct1,
          rule_format, OF t0, THEN conjunct1])
  have 4: "invocations (timer_callback_resume ?w 0) = [(''U1'', ''Hi'')]"
    unfolding world_two
    by (simp add: timer_callback_resume_def Let_def get_aggregated_text_def)
  let ?es = "[Add ''U1'' ''Hi'', Start 0, Add ''U2'' ''Yo'', Start 1, Wake 1]"
  have 5: "invocations (run (projr (init 3 0)) ?es) = [(''U2'', ''Yo'')]"
    by (rule world_two_wake)
  have mem: "(''U2'', ''Yo'') \<in> set (invocations (run (projr (init 3 0)) ?es))"
    unfolding 5 by simp
  have h: "run (projr (init 3 0)) ?es = run (projr (init 3 0)) ?es \<and>
      (''U2'', ''Yo'') \<in> set (invocations (run (projr (init 3 0)) ?es))"
    using mem by (intro conjI refl)
  have 6: "\<exists>seg. sublist seg (added_for ''U2'' ?es) \<and> ''Yo'' = str_join '' '' seg"
    by (rule per_sender_isolation [OF ne, of "run (projr (init 3 0)) ?es" "''there''",
          THEN conjunct2, THEN conjunct2, THEN conjunct2, THEN conjunct2, rule_format, OF h])
  have 7: "added_for ''U2'' ?es = [''Yo'']" by simp
  have r1: "buffers (add_message ?w ''U1'' ''there'') ''U2'' = Some ?b2"
    using 1 b2 by simp
  have r2: "tasks (add_message ?w ''U1'' ''there'') ! 1 =
      \<lparr>task_phone = ''U2'', phase = Sleeping 3, must_cancel = False\<rparr>"
    using 2 t1 by simp
  have r3: "buffers (timer_callback_resume ?w 0) ''U2'' = Some ?b2"
    using 3 b2 by simp
  show ?thesis
    apply (intro conjI)
           apply (rule wf)
          apply (rule r1)
         apply (rule r2)
        apply (rule r3)
       apply (rule 4)
      apply (rule 5)
     apply (rule 7)
    apply (rule 6)
    done
qed


subsection \<open>Cancelled timers\<close>

lemma cancelled_step:
  assumes "tid < length (tasks w)" and "must_cancel (tasks w ! tid)"
    and "phase (tasks w ! tid) \<noteq> In_callback"
  shows "tid < length (tasks (step w e)) \<and> must_cancel (tasks (step w e) ! tid) \<and>
         phase (tasks (step w e) ! tid) \<noteq> In_callback"
proof (cases e)
  case (Add p m)
  with assms show ?thesis by (simp add: add_message_old_task cancel_old_nth)
next
  case (Start k)
  with assms show ?thesis by (simp add: timer_callback_start_def nth_list_update)
next
  case (Wake k)
  with assms show ?thesis
    by (simp add: timer_callback_resume_def Let_def nth_list_update split: option.splits)
next
  case (Finish k outcome)
  with assms show ?thesis
    by (simp add: timer_callback_finish_def Let_def nth_list_update
        split: callback_outcome.splits py_exception.splits)
next
  case (Status p)
  with assms show ?thesis by simp
next
  case (Clear p)
  with assms show ?thesis by (simp add: clear_buffer_nth)
next
  case (Tick t)
  with assms show ?thesis by simp
qed

lemma cancelled_run:
  "tid < length (tasks w) \<Longrightarrow> must_cancel (tasks w ! tid) \<Longrightarrow>
   phase (tasks w ! tid) \<noteq> In_callback \<Longrightarrow>
   tid < length (tasks (run w es)) \<and> must_cancel (tasks (run w es) ! tid) \<and>
   phase (tasks (run w es) ! tid) \<noteq> In_callback"
proof (induction es arbitrary: w)
  case Nil
  then show ?case by (simp add: run_def)
next
  case (Cons e es)
  from cancelled_step [OF Cons.prems, of e] Cons.IH [of "step w e"]
  show ?case by (simp add: run_def)
qed

lemma cancelled_turn:
  assumes "tid < length (tasks w)" and "must_cancel (tasks w ! tid)"
    and "phase (tasks w ! tid) \<noteq> In_callback"
  shows "invocations (timer_callback_start w tid) = invocations w"
    and "invocations (timer_callback_resume w tid) = invocations w"
    and "buffers (timer_callback_resume w tid) = buffers w"
    and "invocations (timer_callback_finish w tid outcome) = invocations w"
    and "invocations (timer_step w tid) = invocations w"
  using assms
  by (simp_all add: timer_callback_resume_def timer_step_def Let_def split: task_phase.splits)

lemma add_message_cancels:
  assumes "buffers w phone = Some b" and "timer_task b = Some old"
    and "old < length (tasks w)" and "\<not> task_done w old"
  shows "must_cancel (tasks (add_message w phone m) ! old)"
    and "must_cancel (tasks (clear_buffer w phone) ! old)"
  using assms
  by (simp_all add: add_message_old_task cancel_old_def clear_buffer_tasks task_cancel_nth)

text \<open>
  C2 (no duplicate flush). First: when the sender's buffer refers to a task that is not
  done, \<open>add_message\<close> and \<open>clear_buffer\<close> for that sender both request its
  cancellation. Second: a task whose cancellation was requested before it reached the
  callback never reaches it, whatever events follow, and none of its turns calls the
  callback or touches a buffer; the wake time plays no part, so this holds as well when
  the timer was already due at the moment of the request. Third: over one burst with
  gaps below the debounce duration, the number of calls for the sender grows by exactly
  one.
\<close>

theorem cancelled_timer_never_flushes:
  "(\<forall>b old. buffers w phone = Some b \<and> timer_task b = Some old \<and>
      old < length (tasks w) \<and> \<not> task_done w old \<longrightarrow>
      must_cancel (tasks (add_message w phone m) ! old) \<and>
      must_cancel (tasks (clear_buffer w phone) ! old)) \<and>
   (\<forall>tid es. tid < length (tasks w) \<and> must_cancel (tasks w ! tid) \<and>
      waiting (phase (tasks w ! tid)) \<longrightarrow>
      phase (tasks (run w es) ! tid) \<noteq> In_callback \<and>
      invocations (timer_callback_start (run w es) tid) = invocations (run w es) \<and>
      invocations (timer_callback_resume (run w es) tid) = invocations (run w es) \<and>
      buffers (timer_callback_resume (run w es) tid) = buffers (run w es) \<and>
      invocations (timer_callback_finish (run w es) tid outcome) = invocations (run w es) \<and>
      invocations (timer_step (run w es) tid) = invocations (run w es)) \<and>
   (idle w phone \<and> clock w \<le> a \<and> gaps_below (debounce_seconds w) (a # map fst rest) \<and>
      last (a # map fst rest) + sleep_delay (debounce_seconds w) \<le> T \<longrightarrow>
      length (calls_for phone (run_until (burst w phone ((a, m) # rest)) T)) =
        Suc (length (calls_for phone w)))"
proof (intro conjI allI impI)
  fix b old
  assume "buffers w phone = Some b \<and> timer_task b = Some old \<and>
      old < length (tasks w) \<and> \<not> task_done w old"
  then show "must_cancel (tasks (add_message w phone m) ! old)"
    and "must_cancel (tasks (clear_buffer w phone) ! old)"
    by (simp_all add: add_message_cancels)
next
  fix tid es
  assume a: "tid < length (tasks w) \<and> must_cancel (tasks w ! tid) \<and>
      waiting (phase (tasks w ! tid))"
  then have "phase (tasks w ! tid) \<noteq> In_callback" by (auto simp: waiting_def)
  with a have c: "tid < length (tasks (run w es))" "must_cancel (tasks (run w es) ! tid)"
    "phase (tasks (run w es) ! tid) \<noteq> In_callback"
    using cancelled_run [of tid w es] by simp_all
  show "phase (tasks (run w es) ! tid) \<noteq> In_callback" by (rule c(3))
  show "invocations (timer_callback_start (run w es) tid) = invocations (run w es)"
    by simp
  show "invocations (timer_callback_resume (run w es) tid) = invocations (run w es)"
    by (rule cancelled_turn(2) [OF c])
  show "buffers (timer_callback_resume (run w es) tid) = buffers (run w es)"
    by (rule cancelled_turn(3) [OF c])
  show "invocations (timer_callback_finish (run w es) tid outcome) = invocations (run w es)"
    by simp
  show "invocations (timer_step (run w es) tid) = invocations (run w es)"
    by (rule cancelled_turn(5) [OF c])
next
  assume "idle w phone \<and> clock w \<le> a \<and> gaps_below (debounce_seconds w) (a # map fst rest) \<and>
      last (a # map fst rest) + sleep_delay (debounce_seconds w) \<le> T"
  then have "calls_for phone (run_until (burst w phone ((a, m) # rest)) T) =
           calls_for phone w @ [(phone, str_join '' '' (m # map snd rest))]"
    by (intro burst_flush(2)) simp_all
  then show "length (calls_for phone (run_until (burst w phone ((a, m) # rest)) T)) =
        Suc (length (calls_for phone w))"
    by simp
qed


text \<open>The race: the timer of the first message is due at time 3, and at time 3 the
  second message arrives before the loop resumes the timer.\<close>

lemma world_race_run:
  "run (projr (init 3 0)) [Add ''U1'' ''Hi'', Start 0, Tick 3, Add ''U1'' ''there''] =
   add_message
     ((timer_callback_start (add_message (projr (init 3 0)) ''U1'' ''Hi'') 0)\<lparr>clock := 3\<rparr>)
     ''U1'' ''there''"
  by (simp add: run_def init_def)

lemma world_race:
  "run (projr (init 3 0)) [Add ''U1'' ''Hi'', Start 0, Tick 3, Add ''U1'' ''there''] =
     \<lparr>debounce_seconds = 3,
      buffers = [''U1'' \<mapsto> \<lparr>phone_number = ''U1'', messages = [''Hi'', ''there''],
                            timer_task = Some 1, created_at = 0, last_updated = 3\<rparr>],
      tasks = [\<lparr>task_phone = ''U1'', phase = Sleeping 3, must_cancel = True\<rparr>,
               \<lparr>task_phone = ''U1'', phase = Created, must_cancel = False\<rparr>],
      clock = 3, invocations = [],
      log = [Log_initialized 3, Log_created_buffer ''U1'', Log_buffered ''U1'' ''Hi'',
             Log_buffer_count 1, Log_started_timer 3 ''U1'',
             Log_cancelled_existing ''U1'', Log_buffered ''U1'' ''there'',
             Log_buffer_count 2, Log_started_timer 3 ''U1'']\<rparr>"
  unfolding world_race_run world_sleeping
  by (simp add: add_message_def Let_def buffer_add_message_def create_task_def log_append_def
      task_done_def task_cancel_def)

lemma world_race_end:
  "invocations (run (run (projr (init 3 0))
       [Add ''U1'' ''Hi'', Start 0, Tick 3, Add ''U1'' ''there''])
       [Start 1, Wake 0, Tick 6, Wake 1]) = [(''U1'', ''Hi there'')]"
  unfolding world_race
  by (simp add: run_def timer_callback_start_def timer_callback_resume_def set_phase_def
      log_append_def Let_def get_aggregated_text_def buffer_clear_def sleep_delay_def)


text \<open>The cancellation by a second message and by a clear; the race, where the
  cancelled timer was due; and the count over the burst of the specification.\<close>

theorem cancelled_timer_never_flushes_witness:
  "must_cancel (tasks (add_message
      (run (projr (init 3 0)) [Add ''U1'' ''Hi'', Start 0]) ''U1'' ''there'') ! 0) \<and>
   must_cancel (tasks (clear_buffer
      (run (projr (init 3 0)) [Add ''U1'' ''Hi'', Start 0]) ''U1'') ! 0) \<and>
   invocations (timer_callback_resume
      (run (run (projr (init 3 0)) [Add ''U1'' ''Hi'', Start 0, Tick 3, Add ''U1'' ''there''])
         [Start 1]) 0) = [] \<and>
   invocations (run (run (projr (init 3 0))
       [Add ''U1'' ''Hi'', Start 0, Tick 3, Add ''U1'' ''there''])
       [Start 1, Wake 0, Tick 6, Wake 1]) = [(''U1'', ''Hi there'')] \<and>
   length (calls_for ''U1'' (run_until (burst (projr (init 3 0)) ''U1''
      [(0, ''Hi''), (1, ''there''), (2, ''how are you'')]) 5)) = 1"
proof -
  let ?w0 = "projr (init 3 0)"
  let ?ws = "run ?w0 [Add ''U1'' ''Hi'', Start 0]"
  let ?wr = "run ?w0 [Add ''U1'' ''Hi'', Start 0, Tick 3, Add ''U1'' ''there'']"
  let ?b = "\<lparr>phone_number = ''U1'', messages = [''Hi''], timer_task = Some 0,
            created_at = 0, last_updated = 0 :: rat\<rparr>"
  have hs: "buffers ?ws ''U1'' = Some ?b \<and> timer_task ?b = Some 0 \<and>
      0 < length (tasks ?ws) \<and> \<not> task_done ?ws 0"
    unfolding run_example world_sleeping by (simp add: task_done_def)
  note c1 = cancelled_timer_never_flushes [of ?ws "''U1''" "''there''" Returns 0 "[]" 0,
      THEN conjunct1, rule_format, OF hs]
  have hr: "0 < length (tasks ?wr) \<and> must_cancel (tasks ?wr ! 0) \<and>
      waiting (phase (tasks ?wr ! 0))"
    unfolding world_race by (simp add: waiting_def)
  note c2 = cancelled_timer_never_flushes [of ?wr "''U1''" "''there''" Returns 0 "[]" 0,
      THEN conjunct2, THEN conjunct1, rule_format, OF hr, of "[Start 1]"]
  have i0: "invocations (run ?wr [Start 1]) = []"
    unfolding world_race by (simp add: run_def timer_callback_start_def set_phase_def)
  have 3: "invocations (timer_callback_resume (run ?wr [Start 1]) 0) = []"
    using c2 [THEN conjunct2, THEN conjunct2, THEN conjunct1] i0 by simp
  have h3: "idle ?w0 ''U1'' \<and> clock ?w0 \<le> 0 \<and>
      gaps_below (debounce_seconds ?w0) (0 # map fst [(1, ''there''), (2, ''how are you'')]) \<and>
      last (0 # map fst [(1 :: rat, ''there''), (2, ''how are you'')]) +
        sleep_delay (debounce_seconds ?w0) \<le> 5"
    by (simp add: idle_init) (simp add: init_def sleep_delay_def)
  have z: "calls_for ''U1'' ?w0 = []" by (simp add: init_def calls_for_def)
  have 5: "length (calls_for ''U1'' (run_until (burst ?w0 ''U1''
      ((0, ''Hi'') # [(1, ''there''), (2, ''how are you'')])) 5)) = Suc (length (calls_for ''U1'' ?w0))"
    by (rule cancelled_timer_never_flushes [of ?w0 "''U1''" "''Hi''" Returns 0
          "[(1, ''there''), (2, ''how are you'')]" 5,
          THEN conjunct2, THEN conjunct2, THEN mp, OF h3])
  from c1 3 world_race_end 5 z show ?thesis by simp
qed

end
